theory Spec2Isabelle
  imports Main
begin

section \<open>The render tree\<close>

text \<open>
  The declarations of \<^verbatim>\<open>RenderTreeElem\<close> and \<^verbatim>\<open>ParseTreeElem\<close> live in \<^verbatim>\<open>ipc.ts\<close>;
  the datatype below lists the kinds (the discriminant \<^verbatim>\<open>t\<close>) and the fields that the two
  renderers read.  An element is a string or an object with a kind and, for the
  container kinds, the children \<^verbatim>\<open>c\<close>; a kind without \<^verbatim>\<open>c\<close> carries the empty list.
  A footnote id is kept as the text that a template literal interpolates for it.
\<close>

datatype align = AlignLeft | AlignCenter | AlignRight

text \<open>\<^verbatim>\<open>RenderTreeTableAlign\<close>: an alignment or \<^verbatim>\<open>null\<close> (\<open>None\<close>).\<close>

type_synonym table_align = "align option"

datatype kind =
    KP
  | KH nat "string option"
  | KA bool string "string option"
  | KImg string "string option"
  | KBr
  | KBlockquote
  | KEm
  | KStrong
  | KDel
  | KPre
  | KCode "string option"
  | KOl "int option"
  | KUl
  | KLi
  | KTaskList
  | KEmoji string
  | KTable "table_align list"
  | KThead
  | KTbody
  | KTr
  | KTh
  | KTd
  | KCheckbox bool
  | KHr
  | KFnRef string
  | KFnDef string
  | KMath bool string
  | KHtml string
  | KModified
  | KMatch
  | KMatchCurrent
  | KMatchStart
  | KMatchCurrentStart
  | KUnknown string

datatype elem = Str string | Node kind "elem list"

section \<open>Table alignment state\<close>

record TableState =
  aligns :: "table_align list"
  index :: nat

text \<open>
  \<^verbatim>\<open>tableAlignStyle\<close> of \<^verbatim>\<open>markdown.tsx\<close>: the style object \<^verbatim>\<open>{ textAlign }\<close> is
  represented by its one property value, \<^verbatim>\<open>null\<close> by \<open>None\<close>.
\<close>

definition tableAlignStyle :: "TableState \<Rightarrow> align option" where
  "tableAlignStyle t =
     (if length (aligns t) \<le> index t then None
      else (case aligns t ! index t of
              None \<Rightarrow> None
            | Some textAlign \<Rightarrow> Some textAlign))"

text \<open>
  \<^verbatim>\<open>ParseTreeRenderer.tableAlign\<close> of \<^verbatim>\<open>markdown.ts\<close>.  The read \<^verbatim>\<open>aligns[index]\<close>
  of a JavaScript array yields \<^verbatim>\<open>undefined\<close> past the end.
\<close>

datatype lookup = LNull | LUndefined | LAlign align

definition js_index :: "table_align list \<Rightarrow> nat \<Rightarrow> lookup" where
  "js_index xs i =
     (if i < length xs then (case xs ! i of None \<Rightarrow> LNull | Some a \<Rightarrow> LAlign a)
      else LUndefined)"

definition tableAlign :: "TableState option \<Rightarrow> lookup" where
  "tableAlign tbl =
     (case tbl of
        None \<Rightarrow> LNull
      | Some t \<Rightarrow> if length (aligns t) \<ge> index t then LNull else js_index (aligns t) (index t))"

section \<open>Output of the React renderer\<close>

type_synonym key = "nat option"

text \<open>Property values of an element; \<open>PRef n\<close> is the \<open>n\<close>-th object made by \<^verbatim>\<open>React.createRef\<close>.\<close>

datatype pval =
    PUndefined
  | PStr string
  | PNum int
  | PBool bool
  | PRef nat
  | PStyle "(string \<times> string) list"
  | PHtml string

type_synonym props = "(string \<times> pval) list"

text \<open>
  A \<^verbatim>\<open>ReactNode\<close>: \<^verbatim>\<open>null\<close>, a string, an array of nodes, or an element with its type, key,
  properties and \<^verbatim>\<open>props.children\<close> (\<open>None\<close> when the element was created without children).
\<close>

datatype rnode =
    RNull
  | RText string
  | RArray "rnode list"
  | RElem string key props "rnode option"

text \<open>
  A node whose promise may still be pending.  \<open>PElem\<close> is an element that awaits
  \<^verbatim>\<open>this.renderAll(elem.c)\<close>; \<open>PSpread\<close> is the heading, built by
  \<^verbatim>\<open>React.createElement(tag, props, ...children)\<close>; \<open>PFence\<close> is a \<^verbatim>\<open>render\<close> call suspended at
  \<^verbatim>\<open>await this.fence.render(elem, key)\<close>; \<open>PItem\<close> is a callback of \<^verbatim>\<open>renderFootnotes\<close>
  suspended at \<^verbatim>\<open>await this.renderAll(elem.c)\<close>.
\<close>

datatype pnode =
    Done rnode
  | PElem string key props "pnode list"
  | PSpread string key props "pnode list"
  | PFence kind "elem list" key
  | PItem nat string "pnode list"

datatype error = TypeError | Unsettled | HierarchyRequestError

section \<open>The render session\<close>

type_synonym footnote = "string \<times> elem list"

datatype logentry =
    DebugTree "elem list"
  | DebugFootnotes "footnote list"
  | ErrorUnknown elem

text \<open>
  The fields of \<^verbatim>\<open>RenderTreeToReact\<close>.  \<open>refs\<close> counts the objects made by
  \<^verbatim>\<open>React.createRef\<close> so far and \<open>logged\<close> collects the calls of the \<^verbatim>\<open>log\<close> module.
  A pushed footnote definition is kept as its id and its children.
\<close>

record state =
  table :: "TableState option"
  lastModifiedRef :: "nat option"
  footNotes :: "footnote list"
  matchCount :: nat
  refs :: nat
  logged :: "logentry list"

definition initial :: state where
  "initial = \<lparr>table = None, lastModifiedRef = None, footNotes = [], matchCount = 0,
     refs = 0, logged = []\<rparr>"

text \<open>
  The collaborators of \<^verbatim>\<open>fence.tsx\<close>: \<open>fence\<close> is \<^verbatim>\<open>FenceRenderer.render\<close>, which answers
  \<^verbatim>\<open>null\<close> or a node and the modified flag, and \<open>mathjax\<close> is \<^verbatim>\<open>MathJaxRenderer.render\<close>.
\<close>

record env =
  fence :: "elem \<Rightarrow> key \<Rightarrow> (rnode \<times> bool) option"
  mathjax :: "string \<Rightarrow> string \<Rightarrow> key \<Rightarrow> rnode"

fun rawText :: "elem \<Rightarrow> string" where
  "rawText (Str s) = s"
| "rawText (Node k c) = concat (map rawText c)"

fun isReactElement :: "rnode \<Rightarrow> bool" where
  "isReactElement (RElem tag key ps c) = True"
| "isReactElement _ = False"

definition lastElementOf :: "rnode list \<Rightarrow> rnode option" where
  "lastElementOf nodes =
     (if length nodes = 0 then None
      else if isReactElement (last nodes) then Some (last nodes) else None)"

definition lastModified :: "key \<Rightarrow> state \<Rightarrow> rnode \<times> state" where
  "lastModified key s =
     (let ref = refs s in
      (RElem ''span'' key [(''className'', PStr ''last-modified-marker''), (''ref'', PRef ref)] None,
       s\<lparr>lastModifiedRef := Some ref, refs := Suc ref\<rparr>))"

fun digit_char :: "nat \<Rightarrow> char" where
  "digit_char n = char_of (48 + n)"

fun show_nat :: "nat \<Rightarrow> string" where
  "show_nat n = (if n < 10 then [digit_char n] else show_nat (n div 10) @ [digit_char (n mod 10)])"

declare show_nat.simps [simp del]

fun align_name :: "align \<Rightarrow> string" where
  "align_name AlignLeft = ''left''"
| "align_name AlignCenter = ''center''"
| "align_name AlignRight = ''right''"

definition style_prop :: "align \<Rightarrow> string \<times> pval" where
  "style_prop textAlign = (''style'', PStyle [(''textAlign'', align_name textAlign)])"

definition optional :: "string option \<Rightarrow> pval" where
  "optional v = (case v of None \<Rightarrow> PUndefined | Some x \<Rightarrow> PStr x)"

text \<open>A non-empty string is truthy.\<close>

definition truthy :: "string option \<Rightarrow> bool" where
  "truthy v = (case v of None \<Rightarrow> False | Some x \<Rightarrow> x \<noteq> [])"

definition link_title :: "string \<Rightarrow> string option \<Rightarrow> string" where
  "link_title href title =
     (case title of
        None \<Rightarrow> href
      | Some t \<Rightarrow> if t \<noteq> [] \<and> t \<noteq> href then [CHR 0x22] @ t @ [CHR 0x22] @ '' '' @ href else href)"

text \<open>\<^verbatim>\<open><tag key={key} ...>{await this.renderAll(elem.c)}</tag>\<close>\<close>

definition wrap :: "string \<Rightarrow> key \<Rightarrow> props \<Rightarrow> pnode list \<times> state \<Rightarrow> pnode \<times> state" where
  "wrap tag key ps r = (PElem tag key ps (fst r), snd r)"

text \<open>
  \<^verbatim>\<open>render\<close> and \<^verbatim>\<open>renderAll\<close>, up to the first suspension that waits for a collaborator.
  \<^verbatim>\<open>renderAll\<close> calls \<^verbatim>\<open>render\<close> on every element in order before it awaits anything, so the
  effects on the session below happen in document order; the index argument of
  \<open>renderAll\<close> is the position \<^verbatim>\<open>idx\<close> of the first element of the list.  A code fence
  stops at \<^verbatim>\<open>await this.fence.render(elem, key)\<close>: the rest of that case is \<open>settle\<close>.
\<close>

fun render :: "env \<Rightarrow> elem \<Rightarrow> key \<Rightarrow> state \<Rightarrow> pnode \<times> state"
and renderAll :: "env \<Rightarrow> elem list \<Rightarrow> nat \<Rightarrow> state \<Rightarrow> pnode list \<times> state" where
  "render env (Str str) key s = (Done (RText str), s)"
| "render env (Node KP c) key s = wrap ''p'' key [] (renderAll env c 0 s)"
| "render env (Node (KH level hid) c) key s =
     (let r = renderAll env c 0 s
      in (PSpread (''h'' @ show_nat level) key
            (if truthy hid then [(''id'', optional hid)] else []) (fst r), snd r))"
| "render env (Node (KA auto href title) c) key s =
     (if auto then wrap ''a'' key [(''href'', PStr href)] (renderAll env c 0 s)
      else wrap ''a'' key [(''title'', PStr (link_title href title)), (''href'', PStr href)]
             (renderAll env c 0 s))"
| "render env (Node (KImg src title) c) key s =
     (Done (RElem ''img'' key
        [(''src'', PStr src), (''alt'', PStr (rawText (Node (KImg src title) c))),
         (''title'', optional title)] None), s)"
| "render env (Node KBr c) key s = (Done (RElem ''br'' key [] None), s)"
| "render env (Node KBlockquote c) key s = wrap ''blockquote'' key [] (renderAll env c 0 s)"
| "render env (Node KEm c) key s = wrap ''em'' key [] (renderAll env c 0 s)"
| "render env (Node KStrong c) key s = wrap ''strong'' key [] (renderAll env c 0 s)"
| "render env (Node KDel c) key s = wrap ''del'' key [] (renderAll env c 0 s)"
| "render env (Node KPre c) key s = wrap ''pre'' key [] (renderAll env c 0 s)"
| "render env (Node (KCode lang) c) key s = (PFence (KCode lang) c key, s)"
| "render env (Node (KOl start) c) key s =
     wrap ''ol'' key [(''start'', (case start of None \<Rightarrow> PUndefined | Some n \<Rightarrow> PNum n))]
       (renderAll env c 0 s)"
| "render env (Node KUl c) key s = wrap ''ul'' key [] (renderAll env c 0 s)"
| "render env (Node KLi c) key s = wrap ''li'' key [] (renderAll env c 0 s)"
| "render env (Node KTaskList c) key s =
     wrap ''li'' key [(''className'', PStr ''task-list-item'')] (renderAll env c 0 s)"
| "render env (Node (KEmoji name) c) key s =
     wrap ''span'' key
       [(''title'', PStr name), (''role'', PStr ''img''), (''aria-label'', PStr (name @ '' emoji''))]
       (renderAll env c 0 s)"
| "render env (Node (KTable align) c) key s =
     wrap ''table'' key []
       (renderAll env c 0 (s\<lparr>table := Some \<lparr>aligns = align, index = 0\<rparr>\<rparr>))"
| "render env (Node KThead c) key s = wrap ''thead'' key [] (renderAll env c 0 s)"
| "render env (Node KTbody c) key s = wrap ''tbody'' key [] (renderAll env c 0 s)"
| "render env (Node KTr c) key s =
     (case table s of
        Some t \<Rightarrow> wrap ''tr'' key [] (renderAll env c 0 (s\<lparr>table := Some (t\<lparr>index := 0\<rparr>)\<rparr>))
      | None \<Rightarrow> wrap ''tr'' key [] (renderAll env c 0 s))"
| "render env (Node KTh c) key s =
     (case table s of
        Some t \<Rightarrow>
          (case tableAlignStyle t of
             Some textAlign \<Rightarrow>
               wrap ''th'' key [style_prop textAlign]
                 (renderAll env c 0 (s\<lparr>table := Some (t\<lparr>index := index t + 1\<rparr>)\<rparr>))
           | None \<Rightarrow>
               wrap ''th'' key []
                 (renderAll env c 0 (s\<lparr>table := Some (t\<lparr>index := index t + 1\<rparr>)\<rparr>)))
      | None \<Rightarrow> wrap ''th'' key [] (renderAll env c 0 s))"
| "render env (Node KTd c) key s =
     (case table s of
        Some t \<Rightarrow>
          (case tableAlignStyle t of
             Some textAlign \<Rightarrow>
               wrap ''td'' key [style_prop textAlign]
                 (renderAll env c 0 (s\<lparr>table := Some (t\<lparr>index := index t + 1\<rparr>)\<rparr>))
           | None \<Rightarrow>
               wrap ''td'' key []
                 (renderAll env c 0 (s\<lparr>table := Some (t\<lparr>index := index t + 1\<rparr>)\<rparr>)))
      | None \<Rightarrow> wrap ''td'' key [] (renderAll env c 0 s))"
| "render env (Node (KCheckbox checked) c) key s =
     (Done (RElem ''input'' key
        [(''type'', PStr ''checkbox''), (''disabled'', PBool True), (''checked'', PBool checked),
         (''className'', PStr ''task-list-item-checkbox'')] None), s)"
| "render env (Node KHr c) key s = (Done (RElem ''hr'' key [] None), s)"
| "render env (Node (KFnRef fid) c) key s =
     (Done (RElem ''sup'' key []
        (Some (RElem ''a'' None
           [(''href'', PStr (''#user-content-fn-'' @ fid)),
            (''id'', PStr (''user-content-fnref-'' @ fid)),
            (''aria-describedby'', PStr ''footnote-label'')]
           (Some (RText fid))))), s)"
| "render env (Node (KFnDef fid) c) key s =
     (Done RNull, s\<lparr>footNotes := footNotes s @ [(fid, c)]\<rparr>)"
| "render env (Node (KMath inline expr) c) key s =
     (Done (mathjax env expr (if inline then ''math-expr-inline'' else ''math-expr-block'') key), s)"
| "render env (Node (KHtml raw) c) key s =
     (Done (RElem ''span'' key [(''dangerouslySetInnerHTML'', PHtml raw)] None), s)"
| "render env (Node KModified c) key s =
     (let r = lastModified key s in (Done (fst r), snd r))"
| "render env (Node KMatch c) key s =
     wrap ''span'' key [(''className'', PStr ''search-text'')] (renderAll env c 0 s)"
| "render env (Node KMatchCurrent c) key s =
     wrap ''span'' key [(''className'', PStr ''search-text-current'')] (renderAll env c 0 s)"
| "render env (Node KMatchStart c) key s =
     wrap ''span'' key [(''className'', PStr ''search-text-start'')]
       (renderAll env c 0 (s\<lparr>matchCount := matchCount s + 1\<rparr>))"
| "render env (Node KMatchCurrentStart c) key s =
     wrap ''span'' key [(''className'', PStr ''search-text-current-start'')]
       (renderAll env c 0 (s\<lparr>matchCount := matchCount s + 1\<rparr>))"
| "render env (Node (KUnknown t) c) key s =
     (Done RNull, s\<lparr>logged := logged s @ [ErrorUnknown (Node (KUnknown t) c)]\<rparr>)"
| "renderAll env [] idx s = ([], s)"
| "renderAll env (elem # elems) idx s =
     (let r = render env elem (Some idx) s;
          rs = renderAll env elems (Suc idx) (snd r)
      in (fst r # fst rs, snd rs))"

text \<open>
  The rest of the code-fence case of \<^verbatim>\<open>render\<close>, which runs once the collaborator's promise
  has settled: the plain code block of the \<^verbatim>\<open>null\<close> answer renders the children only now.
\<close>

definition settle :: "env \<Rightarrow> kind \<Rightarrow> elem list \<Rightarrow> key \<Rightarrow> state \<Rightarrow> pnode \<times> state" where
  "settle env k c key s =
     (case fence env (Node k c) key of
        None \<Rightarrow> wrap ''code'' key [] (renderAll env c 0 s)
      | Some (node, modified) \<Rightarrow>
          if \<not> modified then (Done node, s)
          else (let m = lastModified None s
                in (Done (RElem ''React.Fragment'' key [] (Some (RArray [fst m, node]))), snd m)))"

section \<open>Suspended fences and the order in which they settle\<close>

text \<open>The suspended fences of a node, in document order.\<close>

fun holes :: "pnode \<Rightarrow> (kind \<times> elem list \<times> key) list"
and holesAll :: "pnode list \<Rightarrow> (kind \<times> elem list \<times> key) list" where
  "holes (Done r) = []"
| "holes (PElem tag key ps cs) = holesAll cs"
| "holes (PSpread tag key ps cs) = holesAll cs"
| "holes (PFence k c key) = [(k, c, key)]"
| "holes (PItem idx fid cs) = holesAll cs"
| "holesAll [] = []"
| "holesAll (p # ps) = holes p @ holesAll ps"

text \<open>\<open>fillAll i q ps\<close> puts \<open>q\<close> in the place of the \<open>i\<close>-th suspended fence of \<open>ps\<close>.\<close>

fun fill :: "nat \<Rightarrow> pnode \<Rightarrow> pnode \<Rightarrow> pnode"
and fillAll :: "nat \<Rightarrow> pnode \<Rightarrow> pnode list \<Rightarrow> pnode list" where
  "fill i q (Done r) = Done r"
| "fill i q (PElem tag key ps cs) = PElem tag key ps (fillAll i q cs)"
| "fill i q (PSpread tag key ps cs) = PSpread tag key ps (fillAll i q cs)"
| "fill i q (PFence k c key) = (if i = 0 then q else PFence k c key)"
| "fill i q (PItem idx fid cs) = PItem idx fid (fillAll i q cs)"
| "fillAll i q [] = []"
| "fillAll i q (p # ps) =
     (if i < length (holes p) then fill i q p # ps
      else p # fillAll (i - length (holes p)) q ps)"

text \<open>
  Which suspended fence continues next, out of \<open>n\<close>: the head of the schedule, or the first
  fence once the schedule is used up.
\<close>

definition pick :: "nat list \<Rightarrow> nat \<Rightarrow> nat" where
  "pick sched n = (case sched of [] \<Rightarrow> 0 | i # rest \<Rightarrow> i mod n)"

text \<open>The elements still to be rendered below the suspended fences: the measure of \<open>resume\<close>.\<close>

definition hweight :: "kind \<times> elem list \<times> key \<Rightarrow> nat" where
  "hweight h = Suc (size_list size (fst (snd h)))"

definition weight :: "pnode \<Rightarrow> nat" where
  "weight p = sum_list (map hweight (holes p))"

definition weightAll :: "pnode list \<Rightarrow> nat" where
  "weightAll ps = sum_list (map hweight (holesAll ps))"

lemma weight_simps [simp]:
  "weight (Done r) = 0"
  "weight (PElem tag key pr cs) = weightAll cs"
  "weight (PSpread tag key pr cs) = weightAll cs"
  "weight (PFence k c key) = Suc (size_list size c)"
  "weight (PItem idx fid cs) = weightAll cs"
  by (simp_all add: weight_def weightAll_def hweight_def)

lemma weightAll_simps [simp]:
  "weightAll [] = 0"
  "weightAll (p # ps) = weight p + weightAll ps"
  by (simp_all add: weightAll_def weight_def)

lemma holes_fill:
  "i < length (holes p) \<Longrightarrow> holes (fill i q p) = take i (holes p) @ holes q @ drop (Suc i) (holes p)"
  "i < length (holesAll ps) \<Longrightarrow>
     holesAll (fillAll i q ps) = take i (holesAll ps) @ holes q @ drop (Suc i) (holesAll ps)"
proof (induction i q p and i q ps rule: fill_fillAll.induct)
  case (7 i q p ps)
  show ?case
  proof (cases "i < length (holes p)")
    case True
    with 7 show ?thesis by simp
  next
    case False
    with 7 show ?thesis by (simp add: Suc_diff_le)
  qed
qed simp_all

lemma wrap_pair [simp]: "wrap tag key ps (cs, s) = (PElem tag key ps cs, s)"
  by (simp add: wrap_def)

lemma snd_wrap [simp]: "snd (wrap tag key ps r) = snd r"
  by (simp add: wrap_def)

lemma fst_wrap [simp]: "fst (wrap tag key ps r) = PElem tag key ps (fst r)"
  by (simp add: wrap_def)

lemma render_weight:
  "weight (fst (render env e key s)) \<le> size e"
  "weightAll (fst (renderAll env c idx s)) \<le> size_list size c"
proof (induction env e key s and env c idx s rule: render_renderAll.induct)
  case (37 env elem elems idx s)
  from 37(1) 37(2) [OF refl] show ?case by (simp add: Let_def)
qed (force simp: Let_def split: option.splits intro: le_SucI)+

lemma settle_weight: "weight (fst (settle env k c key s)) < Suc (size_list size c)"
  using render_weight(2) [of env c 0 s]
  by (auto simp: settle_def Let_def split: option.splits)

lemma weight_fill:
  assumes "i < length (holesAll ps)"
  shows "weightAll (fillAll i q ps) + hweight (holesAll ps ! i) = weightAll ps + weight q"
proof -
  let ?hs = "holesAll ps"
  have "weightAll (fillAll i q ps) = sum_list (map hweight (take i ?hs @ holes q @ drop (Suc i) ?hs))"
    using holes_fill(2) [OF assms, of q] by (simp add: weightAll_def)
  moreover have "weightAll ps = sum_list (map hweight (take i ?hs @ ?hs ! i # drop (Suc i) ?hs))"
    using assms by (simp add: weightAll_def id_take_nth_drop [symmetric])
  ultimately show ?thesis by (simp add: weight_def)
qed

lemma pick_less: "0 < n \<Longrightarrow> pick sched n < n"
  by (simp add: pick_def split: list.splits)

text \<open>
  The event loop between the first suspension of a pass and the moment \<^verbatim>\<open>Promise.all\<close> is
  fulfilled.  The collaborator decides which suspended fence continues next: the schedule
  names it by its position among the fences suspended at that moment.  Its continuation
  \<open>settle\<close> runs on the session as it is then, and the result takes the fence's own place in
  the output.
\<close>

function resume :: "env \<Rightarrow> nat list \<Rightarrow> pnode list \<Rightarrow> state \<Rightarrow> pnode list \<times> state" where
  "resume env sched ps s =
     (if holesAll ps = [] then (ps, s)
      else
        (let i = pick sched (length (holesAll ps));
             r = (case holesAll ps ! i of (k, c, key) \<Rightarrow> settle env k c key s)
         in resume env (tl sched) (fillAll i (fst r) ps) (snd r)))"
  by pat_completeness auto

termination
proof (relation "measure (\<lambda>(env, sched, ps, s). weightAll ps)", goal_cases)
  case 1
  show ?case by simp
next
  case (2 env sched ps s i r)
  obtain k c key where hole: "holesAll ps ! i = (k, c, key)"
    by (cases "holesAll ps ! i") auto
  have i: "i < length (holesAll ps)"
    using 2 by (simp add: pick_less)
  have "weight (fst r) < hweight (holesAll ps ! i)"
    using 2 hole settle_weight [of env k c key s] by (simp add: hweight_def)
  with weight_fill [OF i, of "fst r"] show ?case by simp
qed

declare resume.simps [simp del]

lemma resume_Nil: "holesAll ps = [] \<Longrightarrow> resume env sched ps s = (ps, s)"
  by (subst resume.simps) simp

lemma resume_step:
  assumes "holesAll ps \<noteq> []"
    and "holesAll ps ! pick sched (length (holesAll ps)) = (k, c, key)"
  shows "resume env sched ps s =
           resume env (tl sched)
             (fillAll (pick sched (length (holesAll ps))) (fst (settle env k c key s)) ps)
             (snd (settle env k c key s))"
  using assms by (subst resume.simps) (simp add: Let_def)

lemma fill_settle_weight:
  assumes "i < length (holesAll ps)" "holesAll ps ! i = (k, c, key)"
  shows "weightAll (fillAll i (fst (settle env k c key s)) ps) < weightAll ps"
  using weight_fill [OF assms(1), of "fst (settle env k c key s)"] assms(2)
    settle_weight [of env k c key s]
  by (simp add: hweight_def)

text \<open>
  An invariant of the session and the pending output that every continuation keeps holds
  when the loop ends, whatever the schedule; and the loop ends with no fence suspended.
\<close>

lemma resume_rule:
  assumes init: "J ps s"
    and step: "\<And>ps s i k c key. J ps s \<Longrightarrow> i < length (holesAll ps) \<Longrightarrow>
                 holesAll ps ! i = (k, c, key) \<Longrightarrow>
                 J (fillAll i (fst (settle env k c key s)) ps) (snd (settle env k c key s))"
  shows "J (fst (resume env sched ps s)) (snd (resume env sched ps s))
         \<and> holesAll (fst (resume env sched ps s)) = []"
  using init
proof (induction "weightAll ps" arbitrary: ps s sched rule: less_induct)
  case less
  show ?case
  proof (cases "holesAll ps = []")
    case True
    with less.prems show ?thesis by (simp add: resume_Nil)
  next
    case False
    let ?i = "pick sched (length (holesAll ps))"
    obtain k c key where hole: "holesAll ps ! ?i = (k, c, key)"
      by (cases "holesAll ps ! ?i") auto
    have i: "?i < length (holesAll ps)"
      using False by (simp add: pick_less)
    let ?r = "settle env k c key s"
    have eq: "resume env sched ps s = resume env (tl sched) (fillAll ?i (fst ?r) ps) (snd ?r)"
      using resume_step [OF False hole] .
    show ?thesis
      unfolding eq
      by (rule less.hyps [OF fill_settle_weight [OF i hole] step [OF less.prems i hole]])
  qed
qed


section \<open>Settled output, footnotes and the whole pass\<close>

text \<open>
  \<^verbatim>\<open>Promise.all\<close>: the values in the order of the promises, or the rejection.
\<close>

fun promise_all :: "(error + 'a) list \<Rightarrow> error + 'a list" where
  "promise_all [] = Inr []"
| "promise_all (Inl e # rs) = Inl e"
| "promise_all (Inr v # rs) = (case promise_all rs of Inl e \<Rightarrow> Inl e | Inr vs \<Rightarrow> Inr (v # vs))"

text \<open>\<^verbatim>\<open>React.createElement(tag, props, ...children)\<close>\<close>

definition createElement :: "string \<Rightarrow> key \<Rightarrow> props \<Rightarrow> rnode list \<Rightarrow> rnode" where
  "createElement tag key ps children =
     RElem tag key ps
       (case children of [] \<Rightarrow> None | [child] \<Rightarrow> Some child | _ \<Rightarrow> Some (RArray children))"

definition FOOTNOTE_BACKREF_STYLE :: "(string \<times> string) list" where
  "FOOTNOTE_BACKREF_STYLE =
     [(''fontFamily'', ''monospace''), (''fontSize'', ''1.25em''), (''margin'', ''0 0.25em'')]"

text \<open>
  The back-reference link of \<^verbatim>\<open>renderFootnotes\<close>; its string key \<^verbatim>\<open>"backref"\<close> stands among the
  properties, and its text is the arrow U+21A9 in UTF-8.
\<close>

definition backref :: "string \<Rightarrow> rnode" where
  "backref fid =
     RElem ''a'' None
       [(''href'', PStr (''#user-content-fnref-'' @ fid)),
        (''aria-label'', PStr ''Back to content''),
        (''key'', PStr ''backref''),
        (''style'', PStyle FOOTNOTE_BACKREF_STYLE)]
       (Some (RText [CHR 0xE2, CHR 0x86, CHR 0xA9]))"

fun props_children :: "rnode \<Rightarrow> rnode option" where
  "props_children (RElem tag key ps children) = children"
| "props_children _ = None"

text \<open>
  \<^verbatim>\<open>(lastElementOf(children)?.props?.children ?? children).push(backref)\<close>: the link goes into
  the array that is the last element's \<^verbatim>\<open>props.children\<close>, or into \<^verbatim>\<open>children\<close> when that is
  \<^verbatim>\<open>undefined\<close> or \<^verbatim>\<open>null\<close>; a string or a single element there has no \<^verbatim>\<open>push\<close>, and the
  call raises \<^verbatim>\<open>TypeError\<close>.
\<close>

definition push_backref :: "rnode \<Rightarrow> rnode list \<Rightarrow> error + rnode list" where
  "push_backref link children =
     (case lastElementOf children of
        None \<Rightarrow> Inr (children @ [link])
      | Some el \<Rightarrow>
          (case props_children el of
             None \<Rightarrow> Inr (children @ [link])
           | Some RNull \<Rightarrow> Inr (children @ [link])
           | Some (RArray xs) \<Rightarrow>
               (case el of
                  RElem tag key ps ch \<Rightarrow>
                    Inr (butlast children @ [RElem tag key ps (Some (RArray (xs @ [link])))])
                | _ \<Rightarrow> Inr (children @ [link]))
           | Some (RText str) \<Rightarrow> Inl TypeError
           | Some (RElem tag key ps ch) \<Rightarrow> Inl TypeError))"

text \<open>
  The value a promise is fulfilled with once nothing below it is suspended; a fence that
  never settled leaves it \<open>Unsettled\<close>.
\<close>

fun finish :: "pnode \<Rightarrow> error + rnode" where
  "finish (Done r) = Inr r"
| "finish (PElem tag key ps cs) =
     (case promise_all (map finish cs) of
        Inl e \<Rightarrow> Inl e
      | Inr children \<Rightarrow> Inr (RElem tag key ps (Some (RArray children))))"
| "finish (PSpread tag key ps cs) =
     (case promise_all (map finish cs) of
        Inl e \<Rightarrow> Inl e
      | Inr children \<Rightarrow> Inr (createElement tag key ps children))"
| "finish (PFence k c key) = Inl Unsettled"
| "finish (PItem idx fid cs) =
     (case promise_all (map finish cs) of
        Inl e \<Rightarrow> Inl e
      | Inr children \<Rightarrow>
          (case push_backref (backref fid) children of
             Inl e \<Rightarrow> Inl e
           | Inr children' \<Rightarrow>
               Inr (RElem ''li'' (Some idx) [(''id'', PStr (''user-content-fn-'' @ fid))]
                      (Some (RArray children')))))"

text \<open>
  \<^verbatim>\<open>this.footNotes.map(async (elem, idx) => ...)\<close> up to the first suspension of each callback.
  \<^verbatim>\<open>map\<close> visits the elements that the array holds when it is called.
\<close>

fun startFootnotes :: "env \<Rightarrow> footnote list \<Rightarrow> nat \<Rightarrow> state \<Rightarrow> pnode list \<times> state" where
  "startFootnotes env [] idx s = ([], s)"
| "startFootnotes env ((fid, c) # elems) idx s =
     (let r = renderAll env c 0 s;
          rs = startFootnotes env elems (Suc idx) (snd r)
      in (PItem idx fid (fst r) # fst rs, snd rs))"

definition footnotes_section :: "rnode list \<Rightarrow> rnode" where
  "footnotes_section items =
     RElem ''section'' None [(''className'', PStr ''footnotes'')]
       (Some (RArray
          [RElem ''h2'' None [(''id'', PStr ''footnote-label'')] (Some (RText ''Footnotes'')),
           RElem ''ol'' None [] (Some (RArray items))]))"

definition renderFootnotes :: "env \<Rightarrow> nat list \<Rightarrow> state \<Rightarrow> (error + rnode) \<times> state" where
  "renderFootnotes env sched s =
     (if length (footNotes s) = 0 then (Inr RNull, s)
      else
        (let s1 = s\<lparr>logged := logged s @ [DebugFootnotes (footNotes s)]\<rparr>;
             started = startFootnotes env (footNotes s) 0 s1;
             settled = resume env sched (fst started) (snd started)
         in (case promise_all (map finish (fst settled)) of
               Inl e \<Rightarrow> (Inl e, snd settled)
             | Inr items \<Rightarrow> (Inr (footnotes_section items), snd settled))))"

record MarkdownReactTree =
  root :: rnode
  root_lastModified :: "nat option"
  root_matchCount :: nat

text \<open>
  \<^verbatim>\<open>RenderTreeToReact.run\<close> on a fresh session.  The two schedules are the orders in which
  the fences of the main tree and of the footnotes settle.
\<close>

definition run :: "env \<Rightarrow> nat list \<Rightarrow> nat list \<Rightarrow> elem list \<Rightarrow> error + MarkdownReactTree" where
  "run env sched sched' tree =
     (let s0 = initial\<lparr>logged := [DebugTree tree]\<rparr>;
          started = renderAll env tree 0 s0;
          settled = resume env sched (fst started) (snd started)
      in (case promise_all (map finish (fst settled)) of
            Inl e \<Rightarrow> Inl e
          | Inr blocks \<Rightarrow>
              (let fs = renderFootnotes env sched' (snd settled)
               in (case fst fs of
                     Inl e \<Rightarrow> Inl e
                   | Inr notes \<Rightarrow>
                       Inr \<lparr>root = RElem ''React.Fragment'' None []
                                     (Some (RArray [RArray blocks, notes])),
                            root_lastModified = lastModifiedRef (snd fs),
                            root_matchCount = matchCount (snd fs)\<rparr>))))"

section \<open>The legacy synchronous renderer\<close>

text \<open>
  A DOM node: a text node, a comment, or an element with the attributes and properties set
  on it and its child nodes.
\<close>

datatype dnode =
    DText string
  | DComment string
  | DElem string props "dnode list"

text \<open>
  The browser's part: \<open>innerHTML\<close> serialises the children of an element, and \<open>parseHTML\<close>
  gives the child nodes that assigning a string to \<^verbatim>\<open>innerHTML\<close> creates.
\<close>

record dom =
  innerHTML :: "dnode list \<Rightarrow> string"
  parseHTML :: "string \<Rightarrow> dnode list"

text \<open>The fields of \<^verbatim>\<open>ParseTreeRenderer\<close>, and the calls of the \<^verbatim>\<open>log\<close> module.\<close>

record legacy =
  table_l :: "TableState option"
  footNotes_l :: "footnote list"
  logged_l :: "logentry list"

definition initial_legacy :: legacy where
  "initial_legacy = \<lparr>table_l = None, footNotes_l = [], logged_l = []\<rparr>"

text \<open>
  The end of \<^verbatim>\<open>ParseTreeRenderer.render\<close>: the children are rendered into the new node, and
  the node is appended to the parent.
\<close>

definition append_node :: "string \<Rightarrow> props \<Rightarrow> dnode list \<times> legacy \<Rightarrow> dnode list \<times> legacy" where
  "append_node tag attrs r = ([DElem tag attrs (fst r)], snd r)"

definition unknown_legacy :: "elem \<Rightarrow> legacy \<Rightarrow> dnode list \<times> legacy" where
  "unknown_legacy elem st = ([], st\<lparr>logged_l := logged_l st @ [ErrorUnknown elem]\<rparr>)"

text \<open>
  \<^verbatim>\<open>ParseTreeRenderer.render(elem, parent)\<close>; the result lists the nodes appended to \<^verbatim>\<open>parent\<close>.
  The kinds that the \<^verbatim>\<open>switch\<close> of \<^verbatim>\<open>markdown.ts\<close> does not name reach its \<^verbatim>\<open>default\<close>.
\<close>

fun render_legacy :: "dom \<Rightarrow> elem \<Rightarrow> legacy \<Rightarrow> dnode list \<times> legacy"
and render_children :: "dom \<Rightarrow> elem list \<Rightarrow> legacy \<Rightarrow> dnode list \<times> legacy" where
  "render_legacy d (Str str) st = ([DText str], st)"
| "render_legacy d (Node KP c) st = append_node ''p'' [] (render_children d c st)"
| "render_legacy d (Node (KH level hid) c) st =
     append_node (''h'' @ show_nat level) (if truthy hid then [(''id'', optional hid)] else [])
       (render_children d c st)"
| "render_legacy d (Node (KA auto href title) c) st =
     append_node ''a''
       ((''href'', PStr href) # (if truthy title then [(''title'', optional title)] else []))
       (render_children d c st)"
| "render_legacy d (Node (KImg src title) c) st =
     (let tmp = render_children d c st
      in ([DElem ''img''
             ((''src'', PStr src) # (if truthy title then [(''title'', optional title)] else [])
              @ [(''alt'', PStr (innerHTML d (fst tmp)))]) []], snd tmp))"
| "render_legacy d (Node KBr c) st = append_node ''br'' [] (render_children d c st)"
| "render_legacy d (Node KBlockquote c) st = append_node ''blockquote'' [] (render_children d c st)"
| "render_legacy d (Node KEm c) st = append_node ''em'' [] (render_children d c st)"
| "render_legacy d (Node KStrong c) st = append_node ''strong'' [] (render_children d c st)"
| "render_legacy d (Node KDel c) st = append_node ''del'' [] (render_children d c st)"
| "render_legacy d (Node KPre c) st = append_node ''pre'' [] (render_children d c st)"
| "render_legacy d (Node (KCode lang) c) st =
     append_node ''code''
       (case lang of
          None \<Rightarrow> []
        | Some l \<Rightarrow> if l \<noteq> [] then [(''className'', PStr (''language-'' @ l))] else [])
       (render_children d c st)"
| "render_legacy d (Node (KOl start) c) st =
     append_node ''ol'' (case start of None \<Rightarrow> [] | Some n \<Rightarrow> [(''start'', PNum n)])
       (render_children d c st)"
| "render_legacy d (Node KUl c) st = append_node ''ul'' [] (render_children d c st)"
| "render_legacy d (Node KLi c) st = append_node ''li'' [] (render_children d c st)"
| "render_legacy d (Node (KTable align) c) st =
     append_node ''table'' []
       (render_children d c (st\<lparr>table_l := Some \<lparr>aligns = align, index = 0\<rparr>\<rparr>))"
| "render_legacy d (Node KThead c) st = append_node ''thead'' [] (render_children d c st)"
| "render_legacy d (Node KTbody c) st = append_node ''thead'' [] (render_children d c st)"
| "render_legacy d (Node KTr c) st =
     (case table_l st of
        Some t \<Rightarrow> append_node ''tr'' [] (render_children d c (st\<lparr>table_l := Some (t\<lparr>index := 0\<rparr>)\<rparr>))
      | None \<Rightarrow> append_node ''tr'' [] (render_children d c st))"
| "render_legacy d (Node KTh c) st =
     (case table_l st of
        Some t \<Rightarrow>
          append_node ''th'' []
            (render_children d c (st\<lparr>table_l := Some (t\<lparr>index := index t + 1\<rparr>)\<rparr>))
      | None \<Rightarrow> append_node ''th'' [] (render_children d c st))"
| "render_legacy d (Node KTd c) st =
     (case table_l st of
        Some t \<Rightarrow>
          append_node ''td'' []
            (render_children d c (st\<lparr>table_l := Some (t\<lparr>index := index t + 1\<rparr>)\<rparr>))
      | None \<Rightarrow> append_node ''td'' [] (render_children d c st))"
| "render_legacy d (Node (KCheckbox checked) c) st =
     append_node ''input'' [(''disabled'', PBool True), (''checked'', PBool checked)]
       (render_children d c st)"
| "render_legacy d (Node KHr c) st = append_node ''hr'' [] (render_children d c st)"
| "render_legacy d (Node (KFnRef fid) c) st =
     (let r = render_children d c st
      in ([DElem ''sup'' []
             (DElem ''a''
                [(''href'', PStr (''#user-content-fn-'' @ fid)),
                 (''id'', PStr (''user-content-fnref-'' @ fid)),
                 (''aria-describedby'', PStr ''footnote-label'')] [] # fst r)], snd r))"
| "render_legacy d (Node (KFnDef fid) c) st =
     ([], st\<lparr>footNotes_l := footNotes_l st @ [(fid, c)]\<rparr>)"
| "render_legacy d (Node (KHtml raw) c) st = (rev (parseHTML d raw), st)"
| "render_legacy d (Node KTaskList c) st = unknown_legacy (Node KTaskList c) st"
| "render_legacy d (Node (KEmoji name) c) st = unknown_legacy (Node (KEmoji name) c) st"
| "render_legacy d (Node (KMath inline expr) c) st = unknown_legacy (Node (KMath inline expr) c) st"
| "render_legacy d (Node KModified c) st = unknown_legacy (Node KModified c) st"
| "render_legacy d (Node KMatch c) st = unknown_legacy (Node KMatch c) st"
| "render_legacy d (Node KMatchCurrent c) st = unknown_legacy (Node KMatchCurrent c) st"
| "render_legacy d (Node KMatchStart c) st = unknown_legacy (Node KMatchStart c) st"
| "render_legacy d (Node KMatchCurrentStart c) st = unknown_legacy (Node KMatchCurrentStart c) st"
| "render_legacy d (Node (KUnknown t) c) st = unknown_legacy (Node (KUnknown t) c) st"
| "render_children d [] st = ([], st)"
| "render_children d (child # rest) st =
     (let r = render_legacy d child st;
          rs = render_children d rest (snd r)
      in (fst r @ fst rs, snd rs))"

text \<open>
  The link that \<^verbatim>\<open>end\<close> appends: its \<^verbatim>\<open>href\<close> is set to \<^verbatim>\<open>user-content-fnref-<id>\<close>, without
  the \<^verbatim>\<open>#\<close>.
\<close>

definition backref_legacy :: "string \<Rightarrow> dnode" where
  "backref_legacy fid =
     DElem ''a''
       [(''href'', PStr (''user-content-fnref-'' @ fid)),
        (''className'', PStr ''data-footnote-backref''),
        (''aria-label'', PStr ''Back to content'')]
       [DText [CHR 0xE2, CHR 0x86, CHR 0xA9]]"

text \<open>
  \<^verbatim>\<open>(li.lastChild ?? li).appendChild(a)\<close>: \<^verbatim>\<open>appendChild\<close> on a text node or a comment raises
  \<^verbatim>\<open>HierarchyRequestError\<close>.
\<close>

definition append_backref :: "dnode \<Rightarrow> dnode list \<Rightarrow> error + dnode list" where
  "append_backref a children =
     (if children = [] then Inr [a]
      else (case last children of
              DElem tag attrs cs \<Rightarrow> Inr (butlast children @ [DElem tag attrs (cs @ [a])])
            | DText str \<Rightarrow> Inl HierarchyRequestError
            | DComment str \<Rightarrow> Inl HierarchyRequestError))"


text \<open>The footnote definitions that the legacy renderer pushes while it renders an element.\<close>

fun pushed :: "elem \<Rightarrow> footnote list"
and pushedAll :: "elem list \<Rightarrow> footnote list" where
  "pushed (Str str) = []"
| "pushed (Node k c) =
     (case k of
        KFnDef fid \<Rightarrow> [(fid, c)]
      | KHtml raw \<Rightarrow> []
      | KTaskList \<Rightarrow> []
      | KEmoji name \<Rightarrow> []
      | KMath inline expr \<Rightarrow> []
      | KModified \<Rightarrow> []
      | KMatch \<Rightarrow> []
      | KMatchCurrent \<Rightarrow> []
      | KMatchStart \<Rightarrow> []
      | KMatchCurrentStart \<Rightarrow> []
      | KUnknown t \<Rightarrow> []
      | _ \<Rightarrow> pushedAll c)"
| "pushedAll [] = []"
| "pushedAll (e # es) = pushed e @ pushedAll es"

definition fweight :: "footnote \<Rightarrow> nat" where
  "fweight f = Suc (size_list size (snd f))"

lemma snd_append_node [simp]: "snd (append_node tag attrs r) = snd r"
  by (simp add: append_node_def)

lemma fst_append_node [simp]: "fst (append_node tag attrs r) = [DElem tag attrs (fst r)]"
  by (simp add: append_node_def)

lemma render_legacy_pushed:
  "footNotes_l (snd (render_legacy d e st)) = footNotes_l st @ pushed e"
  "footNotes_l (snd (render_children d c st)) = footNotes_l st @ pushedAll c"
proof (induction d e st and d c st rule: render_legacy_render_children.induct)
qed (simp_all add: unknown_legacy_def Let_def split: option.splits)

lemma pushed_weight:
  "sum_list (map fweight (pushed e)) \<le> size e"
  "sum_list (map fweight (pushedAll es)) \<le> size_list size es"
proof (induction e and es rule: pushed_pushedAll.induct)
  case (2 k c)
  then show ?case by (cases k) (auto simp: fweight_def intro: le_SucI)
qed simp_all

text \<open>
  The loop \<^verbatim>\<open>for (const elem of this.footNotes)\<close> of \<^verbatim>\<open>end\<close>, from position \<open>i\<close>: the array
  iterator reads the length of the array at every step, so a definition pushed while an
  earlier one is rendered is visited too.
\<close>

function footnote_items :: "dom \<Rightarrow> nat \<Rightarrow> legacy \<Rightarrow> error + (dnode list \<times> legacy)" where
  "footnote_items d i st =
     (if i < length (footNotes_l st) then
        (let elem = footNotes_l st ! i;
             r = render_children d (snd elem) st
         in (case append_backref (backref_legacy (fst elem)) (fst r) of
               Inl e \<Rightarrow> Inl e
             | Inr children \<Rightarrow>
                 (case footnote_items d (Suc i) (snd r) of
                    Inl e \<Rightarrow> Inl e
                  | Inr rest \<Rightarrow>
                      Inr (DElem ''li'' [(''id'', PStr (''user-content-fn-'' @ fst elem))] children
                             # fst rest, snd rest))))
      else Inr ([], st))"
  by pat_completeness auto

termination
proof (relation "measure (\<lambda>(d, i, st). sum_list (map fweight (drop i (footNotes_l st))))", goal_cases)
  case 1
  show ?case by simp
next
  case (2 d i st elem r children)
  let ?fs = "footNotes_l st"
  have fs: "footNotes_l (snd r) = ?fs @ pushedAll (snd elem)"
    using 2 by (simp add: render_legacy_pushed)
  have "drop i ?fs = elem # drop (Suc i) ?fs"
    using 2 by (simp add: Cons_nth_drop_Suc)
  moreover have "sum_list (map fweight (pushedAll (snd elem))) < fweight elem"
    using pushed_weight(2) [of "snd elem"] by (simp add: fweight_def)
  ultimately show ?case using 2(1) fs by simp
qed

declare footnote_items.simps [simp del]

text \<open>\<^verbatim>\<open>ParseTreeRenderer.end(parent)\<close>; the result lists the nodes appended to \<^verbatim>\<open>parent\<close>.\<close>

definition end_legacy :: "dom \<Rightarrow> legacy \<Rightarrow> error + (dnode list \<times> legacy)" where
  "end_legacy d st =
     (if length (footNotes_l st) = 0 then Inr ([], st)
      else (case footnote_items d 0 st of
              Inl e \<Rightarrow> Inl e
            | Inr items \<Rightarrow>
                Inr ([DElem ''section'' [(''className'', PStr ''footnotes'')]
                        [DElem ''h2'' [(''id'', PStr ''footnote-label''), (''className'', PStr ''sr-only'')]
                           [DText ''Footnotes''],
                         DElem ''ol'' [] (fst items)]], snd items)))"

text \<open>\<^verbatim>\<open>PreviewContent.render\<close>: the children of the root element after the call.\<close>

definition PreviewContent_render :: "dom \<Rightarrow> elem list \<Rightarrow> error + dnode list" where
  "PreviewContent_render d tree =
     (let r = render_children d tree initial_legacy
      in (case end_legacy d (snd r) of
            Inl e \<Rightarrow> Inl e
          | Inr notes \<Rightarrow> Inr (fst r @ fst notes)))"

text \<open>A browser stub for concrete runs.\<close>

definition stub_dom :: dom where
  "stub_dom = \<lparr>innerHTML = (\<lambda>nodes. []), parseHTML = (\<lambda>raw. [DText raw])\<rparr>"

section \<open>Table alignment\<close>

text \<open>
  Cell contents without a table, row or cell node of their own: rendering them leaves the
  alignment state alone.
\<close>

fun is_table_kind :: "kind \<Rightarrow> bool" where
  "is_table_kind (KTable align) = True"
| "is_table_kind KTr = True"
| "is_table_kind KTh = True"
| "is_table_kind KTd = True"
| "is_table_kind _ = False"

fun plain :: "elem \<Rightarrow> bool" where
  "plain (Str str) = True"
| "plain (Node k c) = (\<not> is_table_kind k \<and> list_all plain c)"

text \<open>
  The alignment property a cell is expected to carry: the alignment at the cursor when the
  cursor is within the sequence and the entry is not \<^verbatim>\<open>null\<close>, none otherwise.
\<close>

definition cell_props :: "TableState \<Rightarrow> props" where
  "cell_props t =
     (if index t < length (aligns t)
      then (case aligns t ! index t of None \<Rightarrow> [] | Some a \<Rightarrow> [style_prop a])
      else [])"

lemma plain_table:
  "plain e \<Longrightarrow> table (snd (render env e key s)) = table s"
  "list_all plain c \<Longrightarrow> table (snd (renderAll env c idx s)) = table s"
proof (induction env e key s and env c idx s rule: render_renderAll.induct)
qed (simp_all add: lastModified_def Let_def)

lemma render_th:
  "table s = Some t \<Longrightarrow>
     render env (Node KTh c) key s =
       wrap ''th'' key (cell_props t) (renderAll env c 0 (s\<lparr>table := Some (t\<lparr>index := index t + 1\<rparr>)\<rparr>))"
  by (simp add: cell_props_def tableAlignStyle_def split: option.splits)

lemma render_td:
  "table s = Some t \<Longrightarrow>
     render env (Node KTd c) key s =
       wrap ''td'' key (cell_props t) (renderAll env c 0 (s\<lparr>table := Some (t\<lparr>index := index t + 1\<rparr>)\<rparr>))"
  by (simp add: cell_props_def tableAlignStyle_def split: option.splits)


lemma th_step:
  assumes "table s = Some t" "list_all plain c"
  shows "\<exists>r s'. render env (Node KTh c) key s = (PElem ''th'' key (cell_props t) r, s')
           \<and> table s' = Some (t\<lparr>index := Suc (index t)\<rparr>)"
proof -
  let ?s = "s\<lparr>table := Some (t\<lparr>index := index t + 1\<rparr>)\<rparr>"
  have "render env (Node KTh c) key s = (PElem ''th'' key (cell_props t) (fst (renderAll env c 0 ?s)),
          snd (renderAll env c 0 ?s))"
    using render_th [OF assms(1), of env c key] by (simp add: wrap_def del: render.simps)
  moreover have "table (snd (renderAll env c 0 ?s)) = Some (t\<lparr>index := Suc (index t)\<rparr>)"
    using plain_table(2) [OF assms(2)] by simp
  ultimately show ?thesis by blast
qed

lemma td_step:
  assumes "table s = Some t" "list_all plain c"
  shows "\<exists>r s'. render env (Node KTd c) key s = (PElem ''td'' key (cell_props t) r, s')
           \<and> table s' = Some (t\<lparr>index := Suc (index t)\<rparr>)"
proof -
  let ?s = "s\<lparr>table := Some (t\<lparr>index := index t + 1\<rparr>)\<rparr>"
  have "render env (Node KTd c) key s = (PElem ''td'' key (cell_props t) (fst (renderAll env c 0 ?s)),
          snd (renderAll env c 0 ?s))"
    using render_td [OF assms(1), of env c key] by (simp add: wrap_def del: render.simps)
  moreover have "table (snd (renderAll env c 0 ?s)) = Some (t\<lparr>index := Suc (index t)\<rparr>)"
    using plain_table(2) [OF assms(2)] by simp
  ultimately show ?thesis by blast
qed

abbreviation lnr :: "table_align list" where
  "lnr \<equiv> [Some AlignLeft, None, Some AlignRight]"

lemma cell_props_lnr [simp]:
  "cell_props \<lparr>aligns = lnr, index = 0\<rparr> = [style_prop AlignLeft]"
  "cell_props \<lparr>aligns = lnr, index = Suc 0\<rparr> = []"
  "cell_props \<lparr>aligns = lnr, index = Suc (Suc 0)\<rparr> = [style_prop AlignRight]"
  by (simp_all add: cell_props_def)

lemma header_row:
  assumes t: "table s = Some t" "aligns t = lnr"
    and c: "list_all plain c0" "list_all plain c1" "list_all plain c2"
  shows "\<exists>r0 r1 r2 s'.
           render env (Node KTr [Node KTh c0, Node KTh c1, Node KTh c2]) key s =
             (PElem ''tr'' key []
                [PElem ''th'' (Some 0) [style_prop AlignLeft] r0,
                 PElem ''th'' (Some 1) [] r1,
                 PElem ''th'' (Some 2) [style_prop AlignRight] r2], s')
           \<and> table s' = Some \<lparr>aligns = lnr, index = 3\<rparr>"
proof -
  let ?s = "s\<lparr>table := Some (t\<lparr>index := 0\<rparr>)\<rparr>"
  have t0: "t\<lparr>index := 0\<rparr> = \<lparr>aligns = lnr, index = 0\<rparr>"
    using t(2) by simp
  obtain r0 s0 where 0: "render env (Node KTh c0) (Some 0) ?s = (PElem ''th'' (Some 0) [style_prop AlignLeft] r0, s0)"
      "table s0 = Some \<lparr>aligns = lnr, index = Suc 0\<rparr>"
    using th_step [of ?s "t\<lparr>index := 0\<rparr>" c0 env "Some 0"] c(1) t0 by auto
  obtain r1 s1 where 1: "render env (Node KTh c1) (Some 1) s0 = (PElem ''th'' (Some 1) [] r1, s1)"
      "table s1 = Some \<lparr>aligns = lnr, index = Suc (Suc 0)\<rparr>"
    using th_step [OF 0(2) c(2), of env "Some 1"] by auto
  obtain r2 s2 where 2: "render env (Node KTh c2) (Some 2) s1 = (PElem ''th'' (Some 2) [style_prop AlignRight] r2, s2)"
      "table s2 = Some \<lparr>aligns = lnr, index = 3\<rparr>"
    using th_step [OF 1(2) c(3), of env "Some 2"] by (auto simp: eval_nat_numeral)
  have "renderAll env [Node KTh c0, Node KTh c1, Node KTh c2] 0 ?s =
          ([PElem ''th'' (Some 0) [style_prop AlignLeft] r0, PElem ''th'' (Some 1) [] r1,
            PElem ''th'' (Some 2) [style_prop AlignRight] r2], s2)"
    using 0(1) 1(1) 2(1) by (simp add: eval_nat_numeral del: render.simps)
  then show ?thesis using t(1) 2(2) by simp
qed


lemma data_row:
  assumes t: "table s = Some t" "aligns t = lnr"
    and c: "list_all plain c0" "list_all plain c1" "list_all plain c2"
  shows "\<exists>r0 r1 r2 s'.
           render env (Node KTr [Node KTd c0, Node KTd c1, Node KTd c2]) key s =
             (PElem ''tr'' key []
                [PElem ''td'' (Some 0) [style_prop AlignLeft] r0,
                 PElem ''td'' (Some 1) [] r1,
                 PElem ''td'' (Some 2) [style_prop AlignRight] r2], s')
           \<and> table s' = Some \<lparr>aligns = lnr, index = 3\<rparr>"
proof -
  let ?s = "s\<lparr>table := Some (t\<lparr>index := 0\<rparr>)\<rparr>"
  have t0: "t\<lparr>index := 0\<rparr> = \<lparr>aligns = lnr, index = 0\<rparr>"
    using t(2) by simp
  obtain r0 s0 where 0: "render env (Node KTd c0) (Some 0) ?s = (PElem ''td'' (Some 0) [style_prop AlignLeft] r0, s0)"
      "table s0 = Some \<lparr>aligns = lnr, index = Suc 0\<rparr>"
    using td_step [of ?s "t\<lparr>index := 0\<rparr>" c0 env "Some 0"] c(1) t0 by auto
  obtain r1 s1 where 1: "render env (Node KTd c1) (Some 1) s0 = (PElem ''td'' (Some 1) [] r1, s1)"
      "table s1 = Some \<lparr>aligns = lnr, index = Suc (Suc 0)\<rparr>"
    using td_step [OF 0(2) c(2), of env "Some 1"] by auto
  obtain r2 s2 where 2: "render env (Node KTd c2) (Some 2) s1 = (PElem ''td'' (Some 2) [style_prop AlignRight] r2, s2)"
      "table s2 = Some \<lparr>aligns = lnr, index = 3\<rparr>"
    using td_step [OF 1(2) c(3), of env "Some 2"] by (auto simp: eval_nat_numeral)
  have "renderAll env [Node KTd c0, Node KTd c1, Node KTd c2] 0 ?s =
          ([PElem ''td'' (Some 0) [style_prop AlignLeft] r0, PElem ''td'' (Some 1) [] r1,
            PElem ''td'' (Some 2) [style_prop AlignRight] r2], s2)"
    using 0(1) 1(1) 2(1) by (simp add: eval_nat_numeral del: render.simps)
  then show ?thesis using t(1) 2(2) by simp
qed

text \<open>A collaborator that declines every fence, for concrete runs.\<close>

definition stub_env :: env where
  "stub_env = \<lparr>fence = (\<lambda>elem key. None), mathjax = (\<lambda>expr className key. RNull)\<rparr>"

text \<open>
  Claim C1.  A table declared with the alignments left, none, right, whose header row has
  three header cells and whose next row has three data cells (the cell contents hold no
  table, row or cell node), renders cell 0 with \<^verbatim>\<open>textAlign: left\<close>, cell 1 without a style and
  cell 2 with \<^verbatim>\<open>textAlign: right\<close>, in the header row and again in the row after it.  Entering
  a table renders its children with the alignment state replaced and the cursor at zero;
  entering a row sets the cursor to zero and keeps the sequence; a header or data cell
  takes the alignment at the cursor (none when the cursor is out of range) and its children
  are rendered with the cursor advanced by one, whatever the alignment was.
\<close>

theorem table_alignment:
  "(list_all plain (c0 @ c1 @ c2 @ d0 @ d1 @ d2) \<longrightarrow>
     (\<exists>h0 h1 h2 r0 r1 r2 s'.
        render env
          (Node (KTable [Some AlignLeft, None, Some AlignRight])
             [Node KThead [Node KTr [Node KTh c0, Node KTh c1, Node KTh c2]],
              Node KTbody [Node KTr [Node KTd d0, Node KTd d1, Node KTd d2]]]) key s =
        (PElem ''table'' key []
           [PElem ''thead'' (Some 0) []
              [PElem ''tr'' (Some 0) []
                 [PElem ''th'' (Some 0) [(''style'', PStyle [(''textAlign'', ''left'')])] h0,
                  PElem ''th'' (Some 1) [] h1,
                  PElem ''th'' (Some 2) [(''style'', PStyle [(''textAlign'', ''right'')])] h2]],
            PElem ''tbody'' (Some 1) []
              [PElem ''tr'' (Some 0) []
                 [PElem ''td'' (Some 0) [(''style'', PStyle [(''textAlign'', ''left'')])] r0,
                  PElem ''td'' (Some 1) [] r1,
                  PElem ''td'' (Some 2) [(''style'', PStyle [(''textAlign'', ''right'')])] r2]]],
         s')))
   \<and> render env (Node (KTable al) c) key s =
       wrap ''table'' key [] (renderAll env c 0 (s\<lparr>table := Some \<lparr>aligns = al, index = 0\<rparr>\<rparr>))
   \<and> (table s = Some t \<longrightarrow>
        render env (Node KTr c) key s =
          wrap ''tr'' key [] (renderAll env c 0 (s\<lparr>table := Some (t\<lparr>index := 0\<rparr>)\<rparr>))
      \<and> render env (Node KTh c) key s =
          wrap ''th'' key (cell_props t)
            (renderAll env c 0 (s\<lparr>table := Some (t\<lparr>index := index t + 1\<rparr>)\<rparr>))
      \<and> render env (Node KTd c) key s =
          wrap ''td'' key (cell_props t)
            (renderAll env c 0 (s\<lparr>table := Some (t\<lparr>index := index t + 1\<rparr>)\<rparr>)))"
proof (intro conjI impI)
  assume plain: "list_all plain (c0 @ c1 @ c2 @ d0 @ d1 @ d2)"
  let ?s = "s\<lparr>table := Some \<lparr>aligns = lnr, index = 0\<rparr>\<rparr>"
  obtain h0 h1 h2 s1 where head:
    "render env (Node KTr [Node KTh c0, Node KTh c1, Node KTh c2]) (Some 0) ?s =
       (PElem ''tr'' (Some 0) []
          [PElem ''th'' (Some 0) [style_prop AlignLeft] h0, PElem ''th'' (Some 1) [] h1,
           PElem ''th'' (Some 2) [style_prop AlignRight] h2], s1)"
    "table s1 = Some \<lparr>aligns = lnr, index = 3\<rparr>"
    using header_row [of ?s "\<lparr>aligns = lnr, index = 0\<rparr>" c0 c1 c2 env "Some 0"] plain
    by auto
  obtain r0 r1 r2 s2 where body:
    "render env (Node KTr [Node KTd d0, Node KTd d1, Node KTd d2]) (Some 0) s1 =
       (PElem ''tr'' (Some 0) []
          [PElem ''td'' (Some 0) [style_prop AlignLeft] r0, PElem ''td'' (Some 1) [] r1,
           PElem ''td'' (Some 2) [style_prop AlignRight] r2], s2)"
    using data_row [OF head(2), of d0 d1 d2 env "Some 0"] plain by auto
  have "render env
          (Node (KTable lnr)
             [Node KThead [Node KTr [Node KTh c0, Node KTh c1, Node KTh c2]],
              Node KTbody [Node KTr [Node KTd d0, Node KTd d1, Node KTd d2]]]) key s =
        (PElem ''table'' key []
           [PElem ''thead'' (Some 0) []
              [PElem ''tr'' (Some 0) []
                 [PElem ''th'' (Some 0) [style_prop AlignLeft] h0, PElem ''th'' (Some 1) [] h1,
                  PElem ''th'' (Some 2) [style_prop AlignRight] h2]],
            PElem ''tbody'' (Some 1) []
              [PElem ''tr'' (Some 0) []
                 [PElem ''td'' (Some 0) [style_prop AlignLeft] r0, PElem ''td'' (Some 1) [] r1,
                  PElem ''td'' (Some 2) [style_prop AlignRight] r2]]], s2)"
    using head(1) body
    by (simp del: render.simps add: render.simps(18,19,20) wrap_def)
  then show "\<exists>h0 h1 h2 r0 r1 r2 s'.
        render env
          (Node (KTable [Some AlignLeft, None, Some AlignRight])
             [Node KThead [Node KTr [Node KTh c0, Node KTh c1, Node KTh c2]],
              Node KTbody [Node KTr [Node KTd d0, Node KTd d1, Node KTd d2]]]) key s =
        (PElem ''table'' key []
           [PElem ''thead'' (Some 0) []
              [PElem ''tr'' (Some 0) []
                 [PElem ''th'' (Some 0) [(''style'', PStyle [(''textAlign'', ''left'')])] h0,
                  PElem ''th'' (Some 1) [] h1,
                  PElem ''th'' (Some 2) [(''style'', PStyle [(''textAlign'', ''right'')])] h2]],
            PElem ''tbody'' (Some 1) []
              [PElem ''tr'' (Some 0) []
                 [PElem ''td'' (Some 0) [(''style'', PStyle [(''textAlign'', ''left'')])] r0,
                  PElem ''td'' (Some 1) [] r1,
                  PElem ''td'' (Some 2) [(''style'', PStyle [(''textAlign'', ''right'')])] r2]]],
         s')"
    unfolding style_prop_def align_name.simps by blast
next
  show "render env (Node (KTable al) c) key s =
       wrap ''table'' key [] (renderAll env c 0 (s\<lparr>table := Some \<lparr>aligns = al, index = 0\<rparr>\<rparr>))"
    by simp
next
  assume t: "table s = Some t"
  show "render env (Node KTr c) key s =
          wrap ''tr'' key [] (renderAll env c 0 (s\<lparr>table := Some (t\<lparr>index := 0\<rparr>)\<rparr>))"
    using t by simp
next
  assume t: "table s = Some t"
  from render_th [OF t, of env c key]
  show "render env (Node KTh c) key s =
          wrap ''th'' key (cell_props t)
            (renderAll env c 0 (s\<lparr>table := Some (t\<lparr>index := index t + 1\<rparr>)\<rparr>))"
    .
next
  assume t: "table s = Some t"
  from render_td [OF t, of env c key]
  show "render env (Node KTd c) key s =
          wrap ''td'' key (cell_props t)
            (renderAll env c 0 (s\<lparr>table := Some (t\<lparr>index := index t + 1\<rparr>)\<rparr>))"
    .
qed


theorem table_alignment_witness:
  "list_all plain ([Str ''a''] @ [Node KEm [Str ''b'']] @ [] @ [Str ''1''] @ [] @ [Str ''3''])
   \<and> table (initial\<lparr>table := Some \<lparr>aligns = [None, Some AlignCenter], index = 1\<rparr>\<rparr>)
       = Some \<lparr>aligns = [None, Some AlignCenter], index = 1\<rparr>
   \<and> (\<exists>h0 h1 h2 r0 r1 r2 s'.
        render stub_env
          (Node (KTable [Some AlignLeft, None, Some AlignRight])
             [Node KThead [Node KTr [Node KTh [Str ''a''], Node KTh [Node KEm [Str ''b'']], Node KTh []]],
              Node KTbody [Node KTr [Node KTd [Str ''1''], Node KTd [], Node KTd [Str ''3'']]]]) None
          (initial\<lparr>table := Some \<lparr>aligns = [None, Some AlignCenter], index = 1\<rparr>\<rparr>) =
        (PElem ''table'' None []
           [PElem ''thead'' (Some 0) []
              [PElem ''tr'' (Some 0) []
                 [PElem ''th'' (Some 0) [(''style'', PStyle [(''textAlign'', ''left'')])] h0,
                  PElem ''th'' (Some 1) [] h1,
                  PElem ''th'' (Some 2) [(''style'', PStyle [(''textAlign'', ''right'')])] h2]],
            PElem ''tbody'' (Some 1) []
              [PElem ''tr'' (Some 0) []
                 [PElem ''td'' (Some 0) [(''style'', PStyle [(''textAlign'', ''left'')])] r0,
                  PElem ''td'' (Some 1) [] r1,
                  PElem ''td'' (Some 2) [(''style'', PStyle [(''textAlign'', ''right'')])] r2]]],
         s'))
   \<and> render stub_env (Node KTh [Str ''x'']) None
         (initial\<lparr>table := Some \<lparr>aligns = [None, Some AlignCenter], index = 1\<rparr>\<rparr>) =
       (PElem ''th'' None [(''style'', PStyle [(''textAlign'', ''center'')])] [Done (RText ''x'')],
        initial\<lparr>table := Some \<lparr>aligns = [None, Some AlignCenter], index = 2\<rparr>\<rparr>)"
  using table_alignment [of "[Str ''a'']" "[Node KEm [Str ''b'']]" "[]" "[Str ''1'']" "[]" "[Str ''3'']"
      stub_env None "initial\<lparr>table := Some \<lparr>aligns = [None, Some AlignCenter], index = 1\<rparr>\<rparr>"
      "[]" "[Str ''x'']" "\<lparr>aligns = [None, Some AlignCenter], index = 1\<rparr>"]
  by (simp add: cell_props_def style_prop_def wrap_def initial_def)


section \<open>The bounds checks of the two variants\<close>

text \<open>
  The legacy lookup answers \<^verbatim>\<open>null\<close> for the cursor 1 on a sequence of length 1, although
  that cursor is out of the sequence's bounds.
\<close>


theorem legacy_bounds_counterexample:
  "tableAlign (Some \<lparr>aligns = [Some AlignLeft], index = 1\<rparr>) = LNull
   \<and> \<not> index \<lparr>aligns = [Some AlignLeft], index = 1\<rparr> < length (aligns \<lparr>aligns = [Some AlignLeft], index = 1\<rparr>)"
  by (simp add: tableAlign_def)

text \<open>
  Claim C3, amended.  The lookup of the asynchronous variant yields an alignment exactly when
  the cursor is within the bounds of the sequence and the entry there is that alignment, and
  yields none exactly when the cursor is out of bounds or the entry is \<^verbatim>\<open>null\<close>.  The legacy
  lookup answers \<^verbatim>\<open>null\<close> exactly when the cursor is at most the length of the sequence
  (every cursor within bounds, and the cursor equal to the length), reads past the end
  (\<^verbatim>\<open>undefined\<close>) for every larger cursor, and so never yields an alignment.
\<close>

theorem alignment_bounds:
  "(tableAlignStyle t = Some a) = (index t < length (aligns t) \<and> aligns t ! index t = Some a)
   \<and> (tableAlignStyle t = None) = (length (aligns t) \<le> index t \<or> aligns t ! index t = None)
   \<and> (tableAlign (Some t) = LNull) = (index t \<le> length (aligns t))
   \<and> (tableAlign (Some t) = LUndefined) = (length (aligns t) < index t)
   \<and> tableAlign tbl \<noteq> LAlign a"
  by (auto simp: tableAlignStyle_def tableAlign_def js_index_def split: option.splits)


section \<open>The alignment state after a table\<close>

text \<open>Elements without a table node anywhere in them.\<close>

fun no_table :: "elem \<Rightarrow> bool" where
  "no_table (Str str) = True"
| "no_table (Node k c) = ((\<forall>al. k \<noteq> KTable al) \<and> list_all no_table c)"

lemma render_table_kept:
  "table s \<noteq> None \<Longrightarrow> table (snd (render env e key s)) \<noteq> None"
  "table s \<noteq> None \<Longrightarrow> table (snd (renderAll env c idx s)) \<noteq> None"
proof (induction env e key s and env c idx s rule: render_renderAll.induct)
qed (auto simp: lastModified_def Let_def split: option.splits)

lemma settle_table_kept: "table s \<noteq> None \<Longrightarrow> table (snd (settle env k c key s)) \<noteq> None"
  using render_table_kept(2) [of s env c 0]
  by (auto simp: settle_def lastModified_def Let_def split: option.splits)

lemma resume_table_kept: "table s \<noteq> None \<Longrightarrow> table (snd (resume env sched ps s)) \<noteq> None"
  using resume_rule [of "\<lambda>ps s. table s \<noteq> None" ps s env sched] settle_table_kept
  by blast

lemma render_aligns_kept:
  "no_table e \<Longrightarrow> map_option aligns (table (snd (render env e key s))) = map_option aligns (table s)"
  "list_all no_table c \<Longrightarrow>
     map_option aligns (table (snd (renderAll env c idx s))) = map_option aligns (table s)"
proof (induction env e key s and env c idx s rule: render_renderAll.induct)
qed (auto simp: lastModified_def Let_def split: option.splits)


lemma startFootnotes_table_kept:
  "table s \<noteq> None \<Longrightarrow> table (snd (startFootnotes env fs idx s)) \<noteq> None"
proof (induction env fs idx s rule: startFootnotes.induct)
  case (2 env fid c elems idx s)
  from 2(2) have "table (snd (renderAll env c 0 s)) \<noteq> None"
    by (rule render_table_kept(2))
  from 2(1) [OF refl this] show ?case by (simp add: Let_def)
qed simp

lemma renderFootnotes_table_kept:
  assumes "table s \<noteq> None"
  shows "table (snd (renderFootnotes env sched s)) \<noteq> None"
proof (cases "length (footNotes s) = 0")
  case True
  with assms show ?thesis by (simp add: renderFootnotes_def)
next
  case False
  let ?s1 = "s\<lparr>logged := logged s @ [DebugFootnotes (footNotes s)]\<rparr>"
  let ?st = "startFootnotes env (footNotes s) 0 ?s1"
  have "table (snd ?st) \<noteq> None"
    using assms by (intro startFootnotes_table_kept) simp
  then have "table (snd (resume env sched (fst ?st) (snd ?st))) \<noteq> None"
    by (rule resume_table_kept)
  with False show ?thesis
    by (simp add: renderFootnotes_def Let_def split: sum.splits)
qed

lemma table_then_aligns:
  assumes "list_all no_table body"
  shows "\<exists>t. table (snd (render env (Node (KTable al) body) key s)) = Some t \<and> aligns t = al"
proof -
  let ?s = "s\<lparr>table := Some \<lparr>aligns = al, index = 0\<rparr>\<rparr>"
  have "map_option aligns (table (snd (renderAll env body 0 ?s))) = Some al"
    using render_aligns_kept(2) [OF assms, of env 0 ?s] by simp
  then show ?thesis by auto
qed

text \<open>
  Claim C10.  Once the session holds an alignment state, nothing in the rest of the pass
  clears it: not rendering any element or list of elements, not the continuation of a
  fence, not the settling of all suspended fences, not the footnote phase.  A table node
  (without a nested table) leaves the state holding its own alignment sequence, and a
  header cell that follows the table as a sibling, outside of it, takes the alignment of
  that state at the cursor where the table left it.  A header or data cell rendered on a
  session with an alignment state takes the alignment at the cursor and advances the
  cursor; a cell rendered on a session that never entered a table is rendered without a
  style and leaves the session as it is, and elements without a table node keep the
  session without an alignment state.
\<close>

theorem alignment_state_never_cleared:
  "(table s \<noteq> None \<longrightarrow>
      table (snd (render env e key s)) \<noteq> None
    \<and> table (snd (renderAll env es idx s)) \<noteq> None
    \<and> table (snd (settle env k c key s)) \<noteq> None
    \<and> table (snd (resume env sched ps s)) \<noteq> None
    \<and> table (snd (renderFootnotes env sched s)) \<noteq> None)
   \<and> (list_all no_table body \<longrightarrow>
        (\<exists>t r. table (snd (render env (Node (KTable al) body) (Some idx) s1)) = Some t
           \<and> aligns t = al
           \<and> renderAll env [Node (KTable al) body, Node KTh c'] idx s1 =
               ([fst (render env (Node (KTable al) body) (Some idx) s1),
                 PElem ''th'' (Some (Suc idx)) (cell_props t) (fst r)], snd r)))
   \<and> (table s2 = Some t2 \<longrightarrow>
        render env (Node KTh c') key' s2 =
          wrap ''th'' key' (cell_props t2)
            (renderAll env c' 0 (s2\<lparr>table := Some (t2\<lparr>index := index t2 + 1\<rparr>)\<rparr>))
      \<and> render env (Node KTd c') key' s2 =
          wrap ''td'' key' (cell_props t2)
            (renderAll env c' 0 (s2\<lparr>table := Some (t2\<lparr>index := index t2 + 1\<rparr>)\<rparr>)))
   \<and> (table s3 = None \<longrightarrow>
        render env (Node KTh c') key' s3 = wrap ''th'' key' [] (renderAll env c' 0 s3)
      \<and> render env (Node KTd c') key' s3 = wrap ''td'' key' [] (renderAll env c' 0 s3)
      \<and> (list_all no_table es' \<longrightarrow> table (snd (renderAll env es' idx' s3)) = None))"
proof (intro conjI impI)
  assume "list_all no_table body"
  then obtain t where t: "table (snd (render env (Node (KTable al) body) (Some idx) s1)) = Some t"
      "aligns t = al"
    using table_then_aligns by blast
  let ?r = "render env (Node (KTable al) body) (Some idx) s1"
  let ?r' = "renderAll env c' 0 (snd ?r\<lparr>table := Some (t\<lparr>index := index t + 1\<rparr>)\<rparr>)"
  have "renderAll env [Node (KTable al) body, Node KTh c'] idx s1 =
          ([fst ?r, PElem ''th'' (Some (Suc idx)) (cell_props t) (fst ?r')], snd ?r')"
    using render_th [OF t(1), of env c' "Some (Suc idx)"]
    by (simp add: Let_def del: render.simps)
  with t show "\<exists>t r. table (snd (render env (Node (KTable al) body) (Some idx) s1)) = Some t
           \<and> aligns t = al
           \<and> renderAll env [Node (KTable al) body, Node KTh c'] idx s1 =
               ([fst (render env (Node (KTable al) body) (Some idx) s1),
                 PElem ''th'' (Some (Suc idx)) (cell_props t) (fst r)], snd r)"
    by blast
next
  assume "table s3 = None" "list_all no_table es'"
  then show "table (snd (renderAll env es' idx' s3)) = None"
    using render_aligns_kept(2) [of es' env idx' s3] by simp
qed (simp_all add: render_table_kept settle_table_kept resume_table_kept
       renderFootnotes_table_kept render_th render_td del: render.simps,
     simp_all)


theorem alignment_state_never_cleared_witness:
  "table (initial\<lparr>table := Some \<lparr>aligns = [Some AlignRight], index = 4\<rparr>\<rparr>) \<noteq> None
   \<and> table (initial\<lparr>table := Some \<lparr>aligns = [Some AlignRight], index = 4\<rparr>\<rparr>)
       = Some \<lparr>aligns = [Some AlignRight], index = 4\<rparr>
   \<and> list_all no_table [Node KTr [Node KTh [Str ''h'']]]
   \<and> table initial = None
   \<and> list_all no_table [Node KP [Node KTh [Str ''x'']]]
   \<and> table (snd (render stub_env (Node KModified []) None
         (initial\<lparr>table := Some \<lparr>aligns = [Some AlignRight], index = 4\<rparr>\<rparr>))) \<noteq> None
   \<and> renderAll stub_env
         [Node (KTable [Some AlignCenter, Some AlignRight]) [Node KTr [Node KTh [Str ''h'']]],
          Node KTh [Str ''stray'']] 0 initial =
       ([PElem ''table'' (Some 0) []
           [PElem ''tr'' (Some 0) []
              [PElem ''th'' (Some 0) [(''style'', PStyle [(''textAlign'', ''center'')])]
                 [Done (RText ''h'')]]],
         PElem ''th'' (Some 1) [(''style'', PStyle [(''textAlign'', ''right'')])]
           [Done (RText ''stray'')]],
        initial\<lparr>table := Some \<lparr>aligns = [Some AlignCenter, Some AlignRight], index = 2\<rparr>\<rparr>)
   \<and> table (snd (renderAll stub_env [Node KP [Node KTh [Str ''x'']]] 0 initial)) = None"
proof -
  let ?s = "initial\<lparr>table := Some \<lparr>aligns = [Some AlignRight], index = 4\<rparr>\<rparr>"
  have kept: "table ?s \<noteq> None" by simp
  have "table (snd (render stub_env (Node KModified []) None ?s)) \<noteq> None"
    using alignment_state_never_cleared [THEN conjunct1, rule_format, OF kept, THEN conjunct1] .
  moreover have "table initial = None"
    by (simp add: initial_def)
  moreover have "table (snd (renderAll stub_env [Node KP [Node KTh [Str ''x'']]] 0 initial)) = None"
    by (simp add: initial_def)
  moreover have "renderAll stub_env
         [Node (KTable [Some AlignCenter, Some AlignRight]) [Node KTr [Node KTh [Str ''h'']]],
          Node KTh [Str ''stray'']] 0 initial =
       ([PElem ''table'' (Some 0) []
           [PElem ''tr'' (Some 0) []
              [PElem ''th'' (Some 0) [(''style'', PStyle [(''textAlign'', ''center'')])]
                 [Done (RText ''h'')]]],
         PElem ''th'' (Some 1) [(''style'', PStyle [(''textAlign'', ''right'')])]
           [Done (RText ''stray'')]],
        initial\<lparr>table := Some \<lparr>aligns = [Some AlignCenter, Some AlignRight], index = 2\<rparr>\<rparr>)"
    by (simp add: tableAlignStyle_def style_prop_def initial_def)
  ultimately show ?thesis by simp
qed


section \<open>Unknown kinds\<close>

text \<open>The kinds whose case of \<^verbatim>\<open>render\<close> calls \<^verbatim>\<open>this.renderAll(elem.c)\<close> before it awaits.\<close>

fun descends :: "kind \<Rightarrow> bool" where
  "descends (KImg src title) = False"
| "descends KBr = False"
| "descends (KCode lang) = False"
| "descends (KCheckbox checked) = False"
| "descends KHr = False"
| "descends (KFnRef fid) = False"
| "descends (KFnDef fid) = False"
| "descends (KMath inline expr) = False"
| "descends (KHtml raw) = False"
| "descends KModified = False"
| "descends (KUnknown t) = False"
| "descends _ = True"
















section \<open>Code fences\<close>



lemma renderAll_strings: "renderAll env (map Str texts) idx s = (map (\<lambda>x. Done (RText x)) texts, s)"
  by (induction texts arbitrary: idx) (simp_all add: Let_def)

lemma promise_all_Inr: "promise_all (map (\<lambda>x. Inr (f x)) xs) = Inr (map f xs)"
  by (induction xs) simp_all

lemma holesAll_Done [simp]: "holesAll (map (\<lambda>x. Done (f x)) xs) = []"
  by (induction xs) simp_all


text \<open>
  A collaborator for concrete runs: a \<^verbatim>\<open>mermaid\<close> fence is rendered and flagged as modified, a
  \<^verbatim>\<open>math\<close> fence is rendered and not flagged, every other fence is declined.
\<close>

definition sample_fence :: "elem \<Rightarrow> key \<Rightarrow> (rnode \<times> bool) option" where
  "sample_fence elem key =
     (case elem of
        Node (KCode (Some lang)) c \<Rightarrow>
          if lang = ''mermaid'' then Some (RElem ''div'' key [(''className'', PStr ''mermaid'')] None, True)
          else if lang = ''math'' then Some (RElem ''div'' key [(''className'', PStr ''math'')] None, False)
          else None
      | _ \<Rightarrow> None)"

definition sample_env :: env where
  "sample_env = \<lparr>fence = sample_fence, mathjax = (\<lambda>expr className key. RText expr)\<rparr>"




section \<open>Container kinds\<close>

text \<open>
  Claim C7, at the failing input.  The legacy renderer creates a \<^verbatim>\<open>thead\<close> element for a
  table-body node, where the asynchronous renderer creates \<^verbatim>\<open>tbody\<close>.
\<close>

theorem legacy_table_body:
  "render_legacy d (Node KTbody c) st = append_node ''thead'' [] (render_children d c st)
   \<and> PreviewContent_render stub_dom
        [Node (KTable [None]) [Node KTbody [Node KTr [Node KTd [Str ''x'']]]]] =
       Inr [DElem ''table'' []
              [DElem ''thead'' [] [DElem ''tr'' [] [DElem ''td'' [] [DText ''x'']]]]]
   \<and> render env (Node KTbody c) key s = wrap ''tbody'' key [] (renderAll env c 0 s)"
  by (simp add: PreviewContent_render_def initial_legacy_def end_legacy_def append_node_def Let_def)


section \<open>Match counting\<close>

text \<open>
  The elements that \<^verbatim>\<open>render\<close> is called on in the course of a pass, below an element at a
  key.  The children of a fence are rendered when the collaborator declines it; the children
  of a footnote definition are rendered in the footnote phase, when the definition was
  collected by the main pass (\<open>inFootnote\<close> tells that the element is itself rendered in the
  footnote phase); the children of an image, of an unknown element and of the kinds without
  children are not rendered.
\<close>

fun encountered :: "env \<Rightarrow> bool \<Rightarrow> elem \<Rightarrow> key \<Rightarrow> elem list"
and encounteredAll :: "env \<Rightarrow> bool \<Rightarrow> elem list \<Rightarrow> nat \<Rightarrow> elem list" where
  "encountered env inFootnote (Str str) key = [Str str]"
| "encountered env inFootnote (Node k c) key =
     Node k c #
     (case k of
        KCode lang \<Rightarrow>
          (case fence env (Node k c) key of
             None \<Rightarrow> encounteredAll env inFootnote c 0
           | Some answer \<Rightarrow> [])
      | KFnDef fid \<Rightarrow> if inFootnote then [] else encounteredAll env True c 0
      | _ \<Rightarrow> if descends k then encounteredAll env inFootnote c 0 else [])"
| "encounteredAll env inFootnote [] idx = []"
| "encounteredAll env inFootnote (e # es) idx =
     encountered env inFootnote e (Some idx) @ encounteredAll env inFootnote es (Suc idx)"

fun is_match_start :: "elem \<Rightarrow> bool" where
  "is_match_start (Node KMatchStart c) = True"
| "is_match_start (Node KMatchCurrentStart c) = True"
| "is_match_start _ = False"

definition starts :: "env \<Rightarrow> bool \<Rightarrow> elem \<Rightarrow> key \<Rightarrow> nat" where
  "starts env b e key = length (filter is_match_start (encountered env b e key))"

definition startsAll :: "env \<Rightarrow> bool \<Rightarrow> elem list \<Rightarrow> nat \<Rightarrow> nat" where
  "startsAll env b es idx = length (filter is_match_start (encounteredAll env b es idx))"

text \<open>The start nodes still to be met: below a suspended fence, and in collected footnotes.\<close>

definition hstarts :: "env \<Rightarrow> bool \<Rightarrow> kind \<times> elem list \<times> key \<Rightarrow> nat" where
  "hstarts env b h =
     (case h of (k, c, key) \<Rightarrow>
        (case fence env (Node k c) key of None \<Rightarrow> startsAll env b c 0 | Some answer \<Rightarrow> 0))"

definition pending :: "env \<Rightarrow> bool \<Rightarrow> pnode \<Rightarrow> nat" where
  "pending env b p = sum_list (map (hstarts env b) (holes p))"

definition pendingAll :: "env \<Rightarrow> bool \<Rightarrow> pnode list \<Rightarrow> nat" where
  "pendingAll env b ps = sum_list (map (hstarts env b) (holesAll ps))"

definition deferred :: "env \<Rightarrow> bool \<Rightarrow> footnote list \<Rightarrow> nat" where
  "deferred env b fs = (if b then 0 else sum_list (map (\<lambda>f. startsAll env True (snd f) 0) fs))"

lemma starts_simps:
  "startsAll env b [] idx = 0"
  "startsAll env b (e # es) idx = starts env b e (Some idx) + startsAll env b es (Suc idx)"
  by (simp_all add: starts_def startsAll_def)

lemma pending_simps [simp]:
  "pending env b (Done r) = 0"
  "pending env b (PElem tag key pr cs) = pendingAll env b cs"
  "pending env b (PSpread tag key pr cs) = pendingAll env b cs"
  "pending env b (PFence k c key) = hstarts env b (k, c, key)"
  "pending env b (PItem idx fid cs) = pendingAll env b cs"
  "pendingAll env b [] = 0"
  "pendingAll env b (p # ps) = pending env b p + pendingAll env b ps"
  by (simp_all add: pending_def pendingAll_def)

lemma deferred_simps [simp]:
  "deferred env b [] = 0"
  "deferred env False (fs @ [(fid, c)]) = deferred env False fs + startsAll env True c 0"
  "deferred env True fs = 0"
  by (simp_all add: deferred_def)

lemma render_starts:
  "matchCount (snd (render env e key s)) + pending env b (fst (render env e key s))
     + deferred env b (footNotes (snd (render env e key s)))
   = matchCount s + deferred env b (footNotes s) + starts env b e key"
  "matchCount (snd (renderAll env c idx s)) + pendingAll env b (fst (renderAll env c idx s))
     + deferred env b (footNotes (snd (renderAll env c idx s)))
   = matchCount s + deferred env b (footNotes s) + startsAll env b c idx"
proof (induction env e key s and env c idx s rule: render_renderAll.induct)
  case (37 env elem elems idx s)
  from 37(1) 37(2) [OF refl] show ?case
    by (simp add: Let_def starts_simps del: render.simps)
next
  case (27 env fid c key s)
  show ?case by (cases b) (simp_all add: starts_def startsAll_def)
qed (simp_all add: starts_def startsAll_def hstarts_def lastModified_def Let_def split: option.splits)


lemma sum_fill:
  fixes f :: "kind \<times> elem list \<times> key \<Rightarrow> nat"
  assumes "i < length (holesAll ps)"
  shows "sum_list (map f (holesAll (fillAll i q ps))) + f (holesAll ps ! i) =
           sum_list (map f (holesAll ps)) + sum_list (map f (holes q))"
proof -
  let ?hs = "holesAll ps"
  have "sum_list (map f (holesAll (fillAll i q ps))) =
          sum_list (map f (take i ?hs @ holes q @ drop (Suc i) ?hs))"
    using holes_fill(2) [OF assms, of q] by simp
  moreover have "sum_list (map f ?hs) = sum_list (map f (take i ?hs @ ?hs ! i # drop (Suc i) ?hs))"
    using assms by (simp add: id_take_nth_drop [symmetric])
  ultimately show ?thesis by simp
qed

lemma settle_starts:
  "matchCount (snd (settle env k c key s)) + pending env b (fst (settle env k c key s))
     + deferred env b (footNotes (snd (settle env k c key s)))
   = matchCount s + deferred env b (footNotes s) + hstarts env b (k, c, key)"
  using render_starts(2) [of env c 0 s b]
  by (simp add: settle_def hstarts_def lastModified_def Let_def split: option.splits)

lemma resume_starts:
  "matchCount (snd (resume env sched ps s)) + deferred env b (footNotes (snd (resume env sched ps s)))
   = matchCount s + pendingAll env b ps + deferred env b (footNotes s)"
proof -
  define n where "n = matchCount s + pendingAll env b ps + deferred env b (footNotes s)"
  let ?J = "\<lambda>ps s. matchCount s + pendingAll env b ps + deferred env b (footNotes s) = n"
  have "?J (fst (resume env sched ps s)) (snd (resume env sched ps s))
        \<and> holesAll (fst (resume env sched ps s)) = []"
  proof (rule resume_rule)
    show "?J ps s" by (simp add: n_def)
  next
    fix ps :: "pnode list" and s :: state and i k c key
    assume J: "?J ps s" and i: "i < length (holesAll ps)" and hole: "holesAll ps ! i = (k, c, key)"
    let ?r = "settle env k c key s"
    have "pendingAll env b (fillAll i (fst ?r) ps) + hstarts env b (k, c, key) =
            pendingAll env b ps + pending env b (fst ?r)"
      using sum_fill [OF i, of "hstarts env b" "fst ?r"] hole
      by (simp add: pendingAll_def pending_def)
    with settle_starts [of env k c key s b] J
    show "?J (fillAll i (fst ?r) ps) (snd ?r)" by simp
  qed
  then show ?thesis by (auto simp: n_def pendingAll_def)
qed

lemma startFootnotes_starts:
  "matchCount (snd (startFootnotes env fs idx s)) + pendingAll env True (fst (startFootnotes env fs idx s))
   = matchCount s + sum_list (map (\<lambda>f. startsAll env True (snd f) 0) fs)"
proof (induction env fs idx s rule: startFootnotes.induct)
  case (2 env fid c elems idx s)
  from 2 [OF refl] render_starts(2) [of env c 0 s True]
  show ?case by (simp add: Let_def)
qed simp

lemma renderFootnotes_starts:
  "matchCount (snd (renderFootnotes env sched s)) = matchCount s + deferred env False (footNotes s)"
proof (cases "length (footNotes s) = 0")
  case True
  then show ?thesis by (simp add: renderFootnotes_def)
next
  case False
  let ?s1 = "s\<lparr>logged := logged s @ [DebugFootnotes (footNotes s)]\<rparr>"
  let ?st = "startFootnotes env (footNotes s) 0 ?s1"
  let ?re = "resume env sched (fst ?st) (snd ?st)"
  have "snd (renderFootnotes env sched s) = snd ?re"
    using False by (simp add: renderFootnotes_def Let_def split: sum.splits)
  moreover have "matchCount (snd ?re) = matchCount (snd ?st) + pendingAll env True (fst ?st)"
    using resume_starts [of env sched "fst ?st" "snd ?st" True] by simp
  moreover have "matchCount (snd ?st) + pendingAll env True (fst ?st) =
      matchCount s + deferred env False (footNotes s)"
    using startFootnotes_starts [of env "footNotes s" 0 ?s1] by (simp add: deferred_def)
  ultimately show ?thesis by simp
qed

lemma run_matchCount:
  assumes "run env sched sched' tree = Inr res"
  shows "root_matchCount res = startsAll env False tree 0"
proof -
  let ?s0 = "initial\<lparr>logged := [DebugTree tree]\<rparr>"
  let ?st = "renderAll env tree 0 ?s0"
  let ?re = "resume env sched (fst ?st) (snd ?st)"
  have "root_matchCount res = matchCount (snd (renderFootnotes env sched' (snd ?re)))"
    using assms by (auto simp: run_def Let_def split: sum.splits)
  also have "\<dots> = matchCount (snd ?re) + deferred env False (footNotes (snd ?re))"
    by (rule renderFootnotes_starts)
  also have "\<dots> = matchCount (snd ?st) + pendingAll env False (fst ?st)
      + deferred env False (footNotes (snd ?st))"
    by (rule resume_starts)
  also have "\<dots> = startsAll env False tree 0"
    using render_starts(2) [of env tree 0 ?s0 False] by (simp add: initial_def)
  finally show ?thesis .
qed


lemma encountered_strings [simp]:
  "filter is_match_start (encounteredAll env b (map Str texts) idx) = []"
  by (induction texts arbitrary: idx) simp_all

text \<open>
  Claim C4.  When a pass returns, its match count is the number of match-start and
  match-current-start nodes among the elements it rendered, whatever the order in which the
  fences settled; match and match-current nodes are not among the counted kinds.  The
  sibling sequence match-start, match, match-current-start, match (with text children)
  returns the match count 2.  (The counter is a JavaScript number; it is modelled as a
  natural number, which it equals below \<open>2 ^ 53\<close>.)
\<close>

theorem match_counting:
  "(run env sched sched' tree = Inr res \<longrightarrow>
      root_matchCount res = length (filter is_match_start (encounteredAll env False tree 0)))
   \<and> \<not> is_match_start (Node KMatch c) \<and> \<not> is_match_start (Node KMatchCurrent c)
   \<and> is_match_start (Node KMatchStart c) \<and> is_match_start (Node KMatchCurrentStart c)
   \<and> (\<exists>r. run env sched sched'
              [Node KMatchStart (map Str t0), Node KMatch (map Str t1),
               Node KMatchCurrentStart (map Str t2), Node KMatch (map Str t3)] = Inr r
          \<and> root_matchCount r = 2)"
proof (intro conjI impI)
  assume "run env sched sched' tree = Inr res"
  then show "root_matchCount res = length (filter is_match_start (encounteredAll env False tree 0))"
    using run_matchCount by (simp add: startsAll_def)
next
  let ?tree = "[Node KMatchStart (map Str t0), Node KMatch (map Str t1),
               Node KMatchCurrentStart (map Str t2), Node KMatch (map Str t3)]"
  let ?s0 = "initial\<lparr>logged := [DebugTree ?tree]\<rparr>"
  have "holesAll (fst (renderAll env ?tree 0 ?s0)) = []"
    by (simp add: Let_def renderAll_strings)
  then have re: "resume env sched (fst (renderAll env ?tree 0 ?s0)) (snd (renderAll env ?tree 0 ?s0))
      = renderAll env ?tree 0 ?s0"
    by (simp add: resume_Nil)
  have "\<exists>r. run env sched sched' ?tree = Inr r"
    unfolding run_def Let_def re
    by (simp add: Let_def renderAll_strings promise_all_Inr comp_def renderFootnotes_def initial_def)
  then obtain r where r: "run env sched sched' ?tree = Inr r" by blast
  from run_matchCount [OF r] have "root_matchCount r = 2"
    by (simp add: startsAll_def)
  with r show "\<exists>r. run env sched sched' ?tree = Inr r \<and> root_matchCount r = 2" by blast
qed simp_all

theorem match_counting_witness:
  "run sample_env [] []
     [Node KP [Node KMatchStart [Str ''a''], Node KMatch [Str ''b'']],
      Node (KFnDef ''1'') [Node KP [Node KMatchCurrentStart [Str ''c'']]],
      Node (KImg ''u'' None) [Node KMatchStart [Str ''alt'']]] =
   Inr \<lparr>root = RElem ''React.Fragment'' None []
          (Some (RArray
             [RArray
                [RElem ''p'' (Some 0) []
                   (Some (RArray
                      [RElem ''span'' (Some 0) [(''className'', PStr ''search-text-start'')]
                         (Some (RArray [RText ''a''])),
                       RElem ''span'' (Some 1) [(''className'', PStr ''search-text'')]
                         (Some (RArray [RText ''b'']))])),
                 RNull,
                 RElem ''img'' (Some 2)
                   [(''src'', PStr ''u''), (''alt'', PStr ''alt''), (''title'', PUndefined)] None],
              footnotes_section
                [RElem ''li'' (Some 0) [(''id'', PStr ''user-content-fn-1'')]
                   (Some (RArray
                      [RElem ''p'' (Some 0) []
                         (Some (RArray
                            [RElem ''span'' (Some 0)
                               [(''className'', PStr ''search-text-current-start'')]
                               (Some (RArray [RText ''c''])),
                             backref ''1'']))]))]])),
        root_lastModified = None, root_matchCount = 2\<rparr>
   \<and> length (filter is_match_start (encounteredAll sample_env False
        [Node KP [Node KMatchStart [Str ''a''], Node KMatch [Str ''b'']],
         Node (KFnDef ''1'') [Node KP [Node KMatchCurrentStart [Str ''c'']]],
         Node (KImg ''u'' None) [Node KMatchStart [Str ''alt'']]] 0)) = 2"
proof -
  let ?tree = "[Node KP [Node KMatchStart [Str ''a''], Node KMatch [Str ''b'']],
      Node (KFnDef ''1'') [Node KP [Node KMatchCurrentStart [Str ''c'']]],
      Node (KImg ''u'' None) [Node KMatchStart [Str ''alt'']]]"
  have run: "run sample_env [] [] ?tree =
   Inr \<lparr>root = RElem ''React.Fragment'' None []
          (Some (RArray
             [RArray
                [RElem ''p'' (Some 0) []
                   (Some (RArray
                      [RElem ''span'' (Some 0) [(''className'', PStr ''search-text-start'')]
                         (Some (RArray [RText ''a''])),
                       RElem ''span'' (Some 1) [(''className'', PStr ''search-text'')]
                         (Some (RArray [RText ''b'']))])),
                 RNull,
                 RElem ''img'' (Some 2)
                   [(''src'', PStr ''u''), (''alt'', PStr ''alt''), (''title'', PUndefined)] None],
              footnotes_section
                [RElem ''li'' (Some 0) [(''id'', PStr ''user-content-fn-1'')]
                   (Some (RArray
                      [RElem ''p'' (Some 0) []
                         (Some (RArray
                            [RElem ''span'' (Some 0)
                               [(''className'', PStr ''search-text-current-start'')]
                               (Some (RArray [RText ''c''])),
                             backref ''1'']))]))]])),
        root_lastModified = None, root_matchCount = 2\<rparr>"
    by (simp add: run_def Let_def resume_Nil renderFootnotes_def initial_def optional_def
        push_backref_def lastElementOf_def)
  from match_counting [THEN conjunct1, rule_format, OF run]
  show ?thesis using run by simp
qed


section \<open>Output by position\<close>

text \<open>
  The target of a container kind whose output does not depend on the session: the element
  type and the properties of the output node that holds the rendered children.
\<close>

fun target :: "kind \<Rightarrow> (string \<times> props) option" where
  "target KP = Some (''p'', [])"
| "target (KA auto href title) =
     Some (''a'', if auto then [(''href'', PStr href)]
                  else [(''title'', PStr (link_title href title)), (''href'', PStr href)])"
| "target KBlockquote = Some (''blockquote'', [])"
| "target KEm = Some (''em'', [])"
| "target KStrong = Some (''strong'', [])"
| "target KDel = Some (''del'', [])"
| "target KPre = Some (''pre'', [])"
| "target (KOl start) =
     Some (''ol'', [(''start'', (case start of None \<Rightarrow> PUndefined | Some n \<Rightarrow> PNum n))])"
| "target KUl = Some (''ul'', [])"
| "target KLi = Some (''li'', [])"
| "target KTaskList = Some (''li'', [(''className'', PStr ''task-list-item'')])"
| "target (KEmoji name) =
     Some (''span'', [(''title'', PStr name), (''role'', PStr ''img''),
                      (''aria-label'', PStr (name @ '' emoji''))])"
| "target (KTable align) = Some (''table'', [])"
| "target KThead = Some (''thead'', [])"
| "target KTbody = Some (''tbody'', [])"
| "target KTr = Some (''tr'', [])"
| "target KMatch = Some (''span'', [(''className'', PStr ''search-text'')])"
| "target KMatchCurrent = Some (''span'', [(''className'', PStr ''search-text-current'')])"
| "target KMatchStart = Some (''span'', [(''className'', PStr ''search-text-start'')])"
| "target KMatchCurrentStart = Some (''span'', [(''className'', PStr ''search-text-current-start'')])"
| "target _ = None"

text \<open>The last-modified marker that holds the \<open>n\<close>-th reference.\<close>

definition marker :: "key \<Rightarrow> nat \<Rightarrow> rnode" where
  "marker key n =
     RElem ''span'' key [(''className'', PStr ''last-modified-marker''), (''ref'', PRef n)] None"

fun marker_ref :: "rnode \<Rightarrow> nat option" where
  "marker_ref (RElem tag key [cls, (name, PRef n)] None) = Some n"
| "marker_ref _ = None"

definition is_marker :: "key \<Rightarrow> rnode \<Rightarrow> bool" where
  "is_marker key r = (case marker_ref r of None \<Rightarrow> False | Some n \<Rightarrow> r = marker key n)"

text \<open>The output of a fence that the collaborator flagged: a marker, then the node.\<close>

fun is_marked :: "key \<Rightarrow> rnode \<Rightarrow> rnode \<Rightarrow> bool" where
  "is_marked key node (RElem tag key' ps (Some (RArray [m, node']))) =
     (tag = ''React.Fragment'' \<and> key' = key \<and> ps = [] \<and> is_marker None m \<and> node' = node)"
| "is_marked key node _ = False"

definition is_cell_style :: "props \<Rightarrow> bool" where
  "is_cell_style ps =
     (ps = [] \<or> ps = [style_prop AlignLeft] \<or> ps = [style_prop AlignCenter]
      \<or> ps = [style_prop AlignRight])"

text \<open>
  \<open>matches env e key q\<close>: the pending or settled node \<open>q\<close> is a rendering of the element \<open>e\<close>
  at the position \<open>key\<close>, with the renderings of the children of \<open>e\<close> in the order of the
  children, each at its own position.  A cell may carry any alignment, a marker any
  reference; a fence is still suspended, or is the plain code block, or is the collaborator's
  node, alone or after a marker.  The output of the other kinds does not depend on the
  session and is the one \<open>render\<close> gives on a fresh session.
\<close>

fun matches :: "env \<Rightarrow> elem \<Rightarrow> key \<Rightarrow> pnode \<Rightarrow> bool"
and matchesAll :: "env \<Rightarrow> elem list \<Rightarrow> nat \<Rightarrow> pnode list \<Rightarrow> bool" where
  "matches env (Str str) key q = (q = Done (RText str))"
| "matches env (Node k c) key q =
     (case target k of
        Some (tag, ps) \<Rightarrow>
          (case q of
             PElem tag' key' ps' qs \<Rightarrow>
               tag' = tag \<and> key' = key \<and> ps' = ps \<and> matchesAll env c 0 qs
           | _ \<Rightarrow> False)
      | None \<Rightarrow>
          (case k of
             KTh \<Rightarrow>
               (case q of
                  PElem tag' key' ps' qs \<Rightarrow>
                    tag' = ''th'' \<and> key' = key \<and> is_cell_style ps' \<and> matchesAll env c 0 qs
                | _ \<Rightarrow> False)
           | KTd \<Rightarrow>
               (case q of
                  PElem tag' key' ps' qs \<Rightarrow>
                    tag' = ''td'' \<and> key' = key \<and> is_cell_style ps' \<and> matchesAll env c 0 qs
                | _ \<Rightarrow> False)
           | KH level hid \<Rightarrow>
               (case q of
                  PSpread tag' key' ps' qs \<Rightarrow>
                    tag' = ''h'' @ show_nat level \<and> key' = key
                    \<and> ps' = (if truthy hid then [(''id'', optional hid)] else [])
                    \<and> matchesAll env c 0 qs
                | _ \<Rightarrow> False)
           | KCode lang \<Rightarrow>
               (case q of
                  PFence k' c' key' \<Rightarrow> k' = k \<and> c' = c \<and> key' = key
                | PElem tag' key' ps' qs \<Rightarrow>
                    fence env (Node k c) key = None \<and> tag' = ''code'' \<and> key' = key \<and> ps' = []
                    \<and> matchesAll env c 0 qs
                | Done r \<Rightarrow>
                    (case fence env (Node k c) key of
                       None \<Rightarrow> False
                     | Some (node, modified) \<Rightarrow> if modified then is_marked key node r else r = node)
                | _ \<Rightarrow> False)
           | KModified \<Rightarrow> (case q of Done r \<Rightarrow> is_marker key r | _ \<Rightarrow> False)
           | _ \<Rightarrow> q = fst (render env (Node k c) key initial)))"
| "matchesAll env [] idx qs = (qs = [])"
| "matchesAll env (e # es) idx qs =
     (case qs of [] \<Rightarrow> False | q # qs' \<Rightarrow> matches env e (Some idx) q \<and> matchesAll env es (Suc idx) qs')"

lemma is_marker_marker [simp]: "is_marker key (marker key n)"
  by (simp add: is_marker_def marker_def)

lemma lastModified_marker [simp]: "fst (lastModified key s) = marker key (refs s)"
  by (simp add: lastModified_def marker_def Let_def)

lemma is_cell_style_simps [simp]: "is_cell_style []" "is_cell_style [style_prop a]"
  by (cases a; simp add: is_cell_style_def)+

lemma render_matches:
  "matches env e key (fst (render env e key s))"
  "matchesAll env c idx (fst (renderAll env c idx s))"
proof (induction env e key s and env c idx s rule: render_renderAll.induct)
qed (simp_all add: Let_def split: option.splits)


lemma matches_PElem:
  assumes "matches env e key (PElem tag key' ps qs)"
  shows "\<exists>k c. e = Node k c \<and> matchesAll env c 0 qs
           \<and> (\<forall>qs'. matchesAll env c 0 qs' \<longrightarrow> matches env e key (PElem tag key' ps qs'))"
proof (cases e)
  case (Str str)
  with assms show ?thesis by simp
next
  case (Node k c)
  with assms show ?thesis
    by (cases k) (auto simp: Let_def split: option.splits if_splits)
qed

lemma matches_PSpread:
  assumes "matches env e key (PSpread tag key' ps qs)"
  shows "\<exists>k c. e = Node k c \<and> matchesAll env c 0 qs
           \<and> (\<forall>qs'. matchesAll env c 0 qs' \<longrightarrow> matches env e key (PSpread tag key' ps qs'))"
proof (cases e)
  case (Str str)
  with assms show ?thesis by simp
next
  case (Node k c)
  with assms show ?thesis
    by (cases k) (auto simp: Let_def split: option.splits if_splits)
qed

lemma matches_PFence:
  assumes "matches env e key (PFence k c key')"
  shows "\<exists>lang. k = KCode lang \<and> e = Node k c \<and> key' = key"
proof (cases e)
  case (Str str)
  with assms show ?thesis by simp
next
  case (Node k0 c0)
  with assms show ?thesis
    by (cases k0) (auto simp: Let_def split: option.splits if_splits)
qed

lemma matches_PItem: "\<not> matches env e key (PItem idx fid cs)"
proof (cases e)
  case (Node k0 c0)
  then show ?thesis
    by (cases k0) (auto simp: Let_def split: option.splits if_splits)
qed simp

lemma settle_matches:
  "matches env (Node (KCode lang) c) key (fst (settle env (KCode lang) c key s))"
  using render_matches(2) [of env c 0 s]
  by (auto simp: settle_def Let_def split: option.splits)

lemma fill_matches:
  "q = fst (settle env k c key' s) \<Longrightarrow> matches env e key p \<Longrightarrow> i < length (holes p) \<Longrightarrow>
     holes p ! i = (k, c, key') \<Longrightarrow> matches env e key (fill i q p)"
  "q = fst (settle env k c key' s) \<Longrightarrow> matchesAll env es idx ps \<Longrightarrow> i < length (holesAll ps) \<Longrightarrow>
     holesAll ps ! i = (k, c, key') \<Longrightarrow> matchesAll env es idx (fillAll i q ps)"
proof (induction i q p and i q ps arbitrary: e key and es idx rule: fill_fillAll.induct)
  case (1 i q r)
  then show ?case by simp
next
  case (2 i q tag key0 ps cs)
  from matches_PElem [OF 2(3)] obtain k0 c0 where e: "e = Node k0 c0" "matchesAll env c0 0 cs"
      "\<And>qs'. matchesAll env c0 0 qs' \<Longrightarrow> matches env e key (PElem tag key0 ps qs')"
    by blast
  from 2(1) [OF 2(2) e(2)] 2(4,5) have "matchesAll env c0 0 (fillAll i q cs)" by simp
  from e(3) [OF this] show ?case by simp
next
  case (3 i q tag key0 ps cs)
  from matches_PSpread [OF 3(3)] obtain k0 c0 where e: "e = Node k0 c0" "matchesAll env c0 0 cs"
      "\<And>qs'. matchesAll env c0 0 qs' \<Longrightarrow> matches env e key (PSpread tag key0 ps qs')"
    by blast
  from 3(1) [OF 3(2) e(2)] 3(4,5) have "matchesAll env c0 0 (fillAll i q cs)" by simp
  from e(3) [OF this] show ?case by simp
next
  case (4 i q k0 c0 key0)
  from 4(3,4) have eq: "i = 0" "k0 = k" "c0 = c" "key0 = key'" by simp_all
  from matches_PFence [OF 4(2)] eq obtain lang where "k = KCode lang" "e = Node k c" "key' = key"
    by blast
  with 4(1) eq show ?case by (simp add: settle_matches del: matches.simps)
next
  case (5 i q idx0 fid cs)
  then show ?case by (simp add: matches_PItem)
next
  case (6 i q)
  then show ?case by simp
next
  case (7 i q p ps)
  from 7(4) obtain e0 es0 where es: "es = e0 # es0" "matches env e0 (Some idx) p"
      "matchesAll env es0 (Suc idx) ps"
    by (cases es) auto
  show ?case
  proof (cases "i < length (holes p)")
    case True
    with 7(6) have "holes p ! i = (k, c, key')" by (simp add: nth_append)
    from 7(1) [OF True 7(3) es(2) True this] True es show ?thesis by simp
  next
    case False
    with 7(5,6) have "i - length (holes p) < length (holesAll ps)"
        "holesAll ps ! (i - length (holes p)) = (k, c, key')"
      by (auto simp: nth_append)
    from 7(2) [OF False 7(3) es(3) this] False es show ?thesis by simp
  qed
qed

lemma resume_matches:
  assumes "matchesAll env es idx ps"
  shows "matchesAll env es idx (fst (resume env sched ps s))
         \<and> holesAll (fst (resume env sched ps s)) = []"
proof (rule resume_rule [where J = "\<lambda>ps s. matchesAll env es idx ps"])
  show "matchesAll env es idx ps" by fact
next
  fix ps :: "pnode list" and s :: state and i k c key
  assume "matchesAll env es idx ps" "i < length (holesAll ps)" "holesAll ps ! i = (k, c, key)"
  then show "matchesAll env es idx (fillAll i (fst (settle env k c key s)) ps)"
    using fill_matches(2) [OF refl] by blast
qed

lemma matchesAll_nth:
  "matchesAll env es idx qs =
     (length qs = length es \<and> (\<forall>i<length es. matches env (es ! i) (Some (idx + i)) (qs ! i)))"
proof (induction es arbitrary: idx qs)
  case Nil
  then show ?case by simp
next
  case (Cons e es)
  show ?case
  proof (cases qs)
    case Nil
    then show ?thesis by simp
  next
    case (Cons q qs')
    then show ?thesis
      using Cons.IH [of "Suc idx" qs']
      by (auto simp: less_Suc_eq_0_disj simp del: matches.simps)
  qed
qed


text \<open>
  The pending footnote items of a list of collected definitions: the item at position \<open>i\<close>
  belongs to the \<open>i\<close>-th definition and holds a rendering of its children.
\<close>

fun matches_items :: "env \<Rightarrow> footnote list \<Rightarrow> nat \<Rightarrow> pnode list \<Rightarrow> bool" where
  "matches_items env [] idx qs = (qs = [])"
| "matches_items env (f # fs) idx qs =
     (case qs of
        PItem idx' fid cs # qs' \<Rightarrow>
          idx' = idx \<and> fid = fst f \<and> matchesAll env (snd f) 0 cs \<and> matches_items env fs (Suc idx) qs'
      | _ \<Rightarrow> False)"

lemma startFootnotes_matches:
  "matches_items env fs idx (fst (startFootnotes env fs idx s))"
proof (induction env fs idx s rule: startFootnotes.induct)
  case (2 env fid c elems idx s)
  from 2 [OF refl] render_matches(2) [of env c 0 s] show ?case
    by (simp add: Let_def)
qed simp

lemma fill_items:
  assumes "q = fst (settle env k c key' s)" "matches_items env fs idx ps"
    "i < length (holesAll ps)" "holesAll ps ! i = (k, c, key')"
  shows "matches_items env fs idx (fillAll i q ps)"
  using assms(2-)
proof (induction fs arbitrary: idx ps i)
  case Nil
  then show ?case by simp
next
  case (Cons f fs)
  from Cons.prems(1) obtain cs ps' where ps: "ps = PItem idx (fst f) cs # ps'"
      "matchesAll env (snd f) 0 cs" "matches_items env fs (Suc idx) ps'"
    by (auto split: list.splits pnode.splits)
  show ?case
  proof (cases "i < length (holesAll cs)")
    case True
    with Cons.prems(3) ps(1) have "holesAll cs ! i = (k, c, key')" by (simp add: nth_append)
    from fill_matches(2) [OF assms(1) ps(2) True this] True ps show ?thesis by simp
  next
    case False
    with Cons.prems(2,3) ps(1) have "i - length (holesAll cs) < length (holesAll ps')"
        "holesAll ps' ! (i - length (holesAll cs)) = (k, c, key')"
      by (auto simp: nth_append)
    from Cons.IH [OF ps(3) this] False ps show ?thesis by simp
  qed
qed

lemma resume_items:
  assumes "matches_items env fs idx ps"
  shows "matches_items env fs idx (fst (resume env sched ps s))
         \<and> holesAll (fst (resume env sched ps s)) = []"
proof (rule resume_rule [where J = "\<lambda>ps s. matches_items env fs idx ps"])
  show "matches_items env fs idx ps" by fact
next
  fix ps :: "pnode list" and s :: state and i k c key
  assume "matches_items env fs idx ps" "i < length (holesAll ps)" "holesAll ps ! i = (k, c, key)"
  then show "matches_items env fs idx (fillAll i (fst (settle env k c key s)) ps)"
    using fill_items [OF refl] by blast
qed

lemma matches_items_nth:
  "matches_items env fs idx qs =
     (length qs = length fs
      \<and> (\<forall>i<length fs. \<exists>cs. qs ! i = PItem (idx + i) (fst (fs ! i)) cs
                            \<and> matchesAll env (snd (fs ! i)) 0 cs))"
proof (induction fs arbitrary: idx qs)
  case Nil
  then show ?case by simp
next
  case (Cons f fs)
  show ?case
  proof (cases qs)
    case Nil
    then show ?thesis by simp
  next
    case (Cons q qs')
    then show ?thesis
      using Cons.IH [of "Suc idx" qs']
      by (cases q) (auto simp: less_Suc_eq_0_disj)
  qed
qed

lemma promise_all_nth:
  "promise_all rs = Inr vs \<Longrightarrow> length vs = length rs \<and> (\<forall>i<length rs. rs ! i = Inr (vs ! i))"
proof (induction rs arbitrary: vs rule: promise_all.induct)
  case (3 v rs)
  then show ?case by (auto simp: less_Suc_eq_0_disj split: sum.splits)
qed simp_all

lemma holesAll_Nil_nth: "holesAll ps = [] \<Longrightarrow> i < length ps \<Longrightarrow> holes (ps ! i) = []"
  by (induction ps arbitrary: i) (auto simp: nth_Cons split: nat.splits)


lemma finish_PItem:
  assumes "finish (PItem idx fid cs) = Inr r"
  shows "\<exists>raw children. promise_all (map finish cs) = Inr raw
           \<and> push_backref (backref fid) raw = Inr children
           \<and> r = RElem ''li'' (Some idx) [(''id'', PStr (''user-content-fn-'' @ fid))]
                   (Some (RArray children))"
  using assms by (auto split: sum.splits)

lemma renderFootnotes_shape:
  assumes "fst (renderFootnotes env sched s) = Inr notes" "footNotes s \<noteq> []"
  shows "\<exists>items. notes = footnotes_section items \<and> length items = length (footNotes s)
           \<and> (\<forall>i<length (footNotes s). \<exists>cs raw children.
                 matchesAll env (snd (footNotes s ! i)) 0 cs \<and> holesAll cs = []
                 \<and> promise_all (map finish cs) = Inr raw
                 \<and> push_backref (backref (fst (footNotes s ! i))) raw = Inr children
                 \<and> items ! i = RElem ''li'' (Some i)
                       [(''id'', PStr (''user-content-fn-'' @ fst (footNotes s ! i)))]
                       (Some (RArray children)))"
proof -
  let ?fs = "footNotes s"
  let ?s1 = "s\<lparr>logged := logged s @ [DebugFootnotes ?fs]\<rparr>"
  let ?st = "startFootnotes env ?fs 0 ?s1"
  let ?settled = "fst (resume env sched (fst ?st) (snd ?st))"
  from assms obtain items where items: "promise_all (map finish ?settled) = Inr items"
      "notes = footnotes_section items"
    by (auto simp: renderFootnotes_def Let_def split: sum.splits)
  have m: "matches_items env ?fs 0 ?settled" and h: "holesAll ?settled = []"
    using resume_items [OF startFootnotes_matches, where s = "snd ?st" and ?s1 = ?s1] by auto
  from m have len: "length ?settled = length ?fs"
    and nth: "\<And>i. i < length ?fs \<Longrightarrow>
      \<exists>cs. ?settled ! i = PItem i (fst (?fs ! i)) cs \<and> matchesAll env (snd (?fs ! i)) 0 cs"
    by (auto simp: matches_items_nth)
  from promise_all_nth [OF items(1)] len have ilen: "length items = length ?fs"
    and inth: "\<And>i. i < length ?fs \<Longrightarrow> finish (?settled ! i) = Inr (items ! i)"
    by auto
  have "\<exists>cs raw children.
          matchesAll env (snd (?fs ! i)) 0 cs \<and> holesAll cs = []
          \<and> promise_all (map finish cs) = Inr raw
          \<and> push_backref (backref (fst (?fs ! i))) raw = Inr children
          \<and> items ! i = RElem ''li'' (Some i) [(''id'', PStr (''user-content-fn-'' @ fst (?fs ! i)))]
                (Some (RArray children))" if i: "i < length ?fs" for i
  proof -
    from nth [OF i] obtain cs where cs: "?settled ! i = PItem i (fst (?fs ! i)) cs"
        "matchesAll env (snd (?fs ! i)) 0 cs"
      by blast
    from holesAll_Nil_nth [OF h, of i] i len cs(1) have "holesAll cs = []" by simp
    moreover from inth [OF i] cs(1) have "finish (PItem i (fst (?fs ! i)) cs) = Inr (items ! i)"
      by simp
    ultimately show ?thesis using finish_PItem cs(2) by blast
  qed
  with items(2) ilen show ?thesis by blast
qed

lemma renderFootnotes_none: "footNotes s = [] \<Longrightarrow> renderFootnotes env sched s = (Inr RNull, s)"
  by (simp add: renderFootnotes_def)

text \<open>
  The footnote definitions that \<^verbatim>\<open>render\<close> pushes before it awaits, in document order: a
  definition is not looked into, and neither are a fence nor the kinds that render no
  children.
\<close>

fun collected :: "elem \<Rightarrow> footnote list"
and collectedAll :: "elem list \<Rightarrow> footnote list" where
  "collected (Str str) = []"
| "collected (Node k c) =
     (case k of KFnDef fid \<Rightarrow> [(fid, c)] | _ \<Rightarrow> if descends k then collectedAll c else [])"
| "collectedAll [] = []"
| "collectedAll (e # es) = collected e @ collectedAll es"

lemma render_collected:
  "footNotes (snd (render env e key s)) = footNotes s @ collected e"
  "footNotes (snd (renderAll env c idx s)) = footNotes s @ collectedAll c"
proof (induction env e key s and env c idx s rule: render_renderAll.induct)
qed (simp_all add: lastModified_def Let_def split: option.splits)

lemma settle_collected:
  "footNotes (snd (settle env k c key s)) =
     footNotes s @ (if fence env (Node k c) key = None then collectedAll c else [])"
  by (simp add: settle_def render_collected lastModified_def Let_def split: option.splits)

lemma resume_collected: "\<exists>later. footNotes (snd (resume env sched ps s)) = footNotes s @ later"
proof -
  let ?J = "\<lambda>(ps :: pnode list) s'. \<exists>later. footNotes s' = footNotes s @ later"
  have "?J (fst (resume env sched ps s)) (snd (resume env sched ps s))
        \<and> holesAll (fst (resume env sched ps s)) = []"
  proof (rule resume_rule [where J = ?J])
    show "?J ps s" by simp
  next
    fix ps :: "pnode list" and s' :: state and i k c key
    assume "?J ps s'"
    then show "?J (fillAll i (fst (settle env k c key s')) ps) (snd (settle env k c key s'))"
      by (auto simp: settle_collected)
  qed
  then show ?thesis by blast
qed

lemma run_shape:
  assumes "run env sched sched' tree = Inr res"
  shows "\<exists>settled session blocks notes later.
           matchesAll env tree 0 settled \<and> holesAll settled = []
           \<and> promise_all (map finish settled) = Inr blocks
           \<and> footNotes session = collectedAll tree @ later
           \<and> fst (renderFootnotes env sched' session) = Inr notes
           \<and> root res = RElem ''React.Fragment'' None [] (Some (RArray [RArray blocks, notes]))"
proof -
  let ?s0 = "initial\<lparr>logged := [DebugTree tree]\<rparr>"
  let ?st = "renderAll env tree 0 ?s0"
  let ?re = "resume env sched (fst ?st) (snd ?st)"
  from assms obtain blocks foot where b: "promise_all (map finish (fst ?re)) = Inr blocks"
      "fst (renderFootnotes env sched' (snd ?re)) = Inr foot"
      "root res = RElem ''React.Fragment'' None [] (Some (RArray [RArray blocks, foot]))"
    by (auto simp: run_def Let_def split: sum.splits)
  have m: "matchesAll env tree 0 (fst ?re)" "holesAll (fst ?re) = []"
    using resume_matches [OF render_matches(2), where s = "snd ?st" and ?s1 = ?s0] by auto
  obtain later where "footNotes (snd ?re) = footNotes (snd ?st) @ later"
    using resume_collected by blast
  then have "footNotes (snd ?re) = collectedAll tree @ later"
    by (simp add: render_collected initial_def)
  with b m show ?thesis by blast
qed





section \<open>Order of siblings\<close>

text \<open>
  Claim C9.  For every list of sibling elements, every session and every order in which the
  suspended fences settle (the schedule), the settled results are as many as the elements,
  no fence is left suspended, and the result at position \<open>i\<close> is a rendering of the element at
  position \<open>i\<close> (\<open>matches\<close>, which asks the same of the children at every depth); the values
  that \<^verbatim>\<open>Promise.all\<close> is fulfilled with stand in the same positions.  So do the blocks of
  the tree that \<^verbatim>\<open>run\<close> returns.
\<close>

theorem order_preservation:
  "(let pending = renderAll env elems idx s;
        settled = fst (resume env sched (fst pending) (snd pending))
    in length settled = length elems
       \<and> holesAll settled = []
       \<and> (\<forall>i<length elems. matches env (elems ! i) (Some (idx + i)) (settled ! i))
       \<and> (promise_all (map finish settled) = Inr results \<longrightarrow>
            length results = length elems
            \<and> (\<forall>i<length elems. finish (settled ! i) = Inr (results ! i))))
   \<and> (run env sched sched' tree = Inr res \<longrightarrow>
        (\<exists>blocks foot.
           root res = RElem ''React.Fragment'' None [] (Some (RArray [RArray blocks, foot]))
           \<and> length blocks = length tree
           \<and> (\<forall>i<length tree. \<exists>q. matches env (tree ! i) (Some i) q \<and> holes q = []
                                  \<and> finish q = Inr (blocks ! i))))"
proof (intro conjI impI)
  let ?pending = "renderAll env elems idx s"
  let ?settled = "fst (resume env sched (fst ?pending) (snd ?pending))"
  have m: "matchesAll env elems idx ?settled" and h: "holesAll ?settled = []"
    using resume_matches [OF render_matches(2), where s = "snd ?pending" and ?s1 = s] by auto
  from m have len: "length ?settled = length elems"
    and nth: "\<forall>i<length elems. matches env (elems ! i) (Some (idx + i)) (?settled ! i)"
    by (simp_all add: matchesAll_nth del: matches.simps)
  have fin: "length results = length elems
        \<and> (\<forall>i<length elems. finish (?settled ! i) = Inr (results ! i))"
    if "promise_all (map finish ?settled) = Inr results"
    using promise_all_nth [OF that] len by simp
  from len h nth fin
  show "let pending = renderAll env elems idx s;
        settled = fst (resume env sched (fst pending) (snd pending))
    in length settled = length elems
       \<and> holesAll settled = []
       \<and> (\<forall>i<length elems. matches env (elems ! i) (Some (idx + i)) (settled ! i))
       \<and> (promise_all (map finish settled) = Inr results \<longrightarrow>
            length results = length elems
            \<and> (\<forall>i<length elems. finish (settled ! i) = Inr (results ! i)))"
    unfolding Let_def by blast
next
  assume "run env sched sched' tree = Inr res"
  from run_shape [OF this] obtain settled blocks foot where
    s: "matchesAll env tree 0 settled" "holesAll settled = []"
       "promise_all (map finish settled) = Inr blocks"
       "root res = RElem ''React.Fragment'' None [] (Some (RArray [RArray blocks, foot]))"
    by blast
  from s(1) have len: "length settled = length tree"
    and nth: "\<And>i. i < length tree \<Longrightarrow> matches env (tree ! i) (Some i) (settled ! i)"
    by (simp_all add: matchesAll_nth del: matches.simps)
  from promise_all_nth [OF s(3)] len have blen: "length blocks = length tree"
    and bnth: "\<And>i. i < length tree \<Longrightarrow> finish (settled ! i) = Inr (blocks ! i)"
    by auto
  have "\<exists>q. matches env (tree ! i) (Some i) q \<and> holes q = [] \<and> finish q = Inr (blocks ! i)"
    if "i < length tree" for i
    using nth [OF that] bnth [OF that] holesAll_Nil_nth [OF s(2), of i] that len by auto
  with s(4) blen
  show "\<exists>blocks foot.
           root res = RElem ''React.Fragment'' None [] (Some (RArray [RArray blocks, foot]))
           \<and> length blocks = length tree
           \<and> (\<forall>i<length tree. \<exists>q. matches env (tree ! i) (Some i) q \<and> holes q = []
                                  \<and> finish q = Inr (blocks ! i))"
    by blast
qed

theorem order_preservation_witness:
  "run sample_env [1] []
     [Node (KCode (Some ''mermaid'')) [Str ''first''], Str ''between'',
      Node (KCode (Some ''mermaid'')) [Str ''second'']] =
   Inr \<lparr>root = RElem ''React.Fragment'' None []
          (Some (RArray
             [RArray
                [RElem ''React.Fragment'' (Some 0) []
                   (Some (RArray
                      [marker None 1,
                       RElem ''div'' (Some 0) [(''className'', PStr ''mermaid'')] None])),
                 RText ''between'',
                 RElem ''React.Fragment'' (Some 2) []
                   (Some (RArray
                      [marker None 0,
                       RElem ''div'' (Some 2) [(''className'', PStr ''mermaid'')] None]))],
              RNull])),
        root_lastModified = Some 1, root_matchCount = 0\<rparr>
   \<and> run sample_env [] []
     [Node (KCode (Some ''mermaid'')) [Str ''first''], Str ''between'',
      Node (KCode (Some ''mermaid'')) [Str ''second'']] =
   Inr \<lparr>root = RElem ''React.Fragment'' None []
          (Some (RArray
             [RArray
                [RElem ''React.Fragment'' (Some 0) []
                   (Some (RArray
                      [marker None 0,
                       RElem ''div'' (Some 0) [(''className'', PStr ''mermaid'')] None])),
                 RText ''between'',
                 RElem ''React.Fragment'' (Some 2) []
                   (Some (RArray
                      [marker None 1,
                       RElem ''div'' (Some 2) [(''className'', PStr ''mermaid'')] None]))],
              RNull])),
        root_lastModified = Some 1, root_matchCount = 0\<rparr>
   \<and> (\<exists>q. matches sample_env (Node (KCode (Some ''mermaid'')) [Str ''second'']) (Some 2) q
          \<and> holes q = []
          \<and> finish q = Inr (RElem ''React.Fragment'' (Some 2) []
                (Some (RArray
                   [marker None 0,
                    RElem ''div'' (Some 2) [(''className'', PStr ''mermaid'')] None]))))"
proof -
  let ?tree = "[Node (KCode (Some ''mermaid'')) [Str ''first''], Str ''between'',
      Node (KCode (Some ''mermaid'')) [Str ''second'']]"
  let ?res = "\<lparr>root = RElem ''React.Fragment'' None []
          (Some (RArray
             [RArray
                [RElem ''React.Fragment'' (Some 0) []
                   (Some (RArray
                      [marker None 1,
                       RElem ''div'' (Some 0) [(''className'', PStr ''mermaid'')] None])),
                 RText ''between'',
                 RElem ''React.Fragment'' (Some 2) []
                   (Some (RArray
                      [marker None 0,
                       RElem ''div'' (Some 2) [(''className'', PStr ''mermaid'')] None]))],
              RNull])),
        root_lastModified = Some 1, root_matchCount = 0\<rparr>"
  have late: "run sample_env [1] [] ?tree = Inr ?res"
    by (simp add: run_def Let_def resume.simps pick_def renderFootnotes_def initial_def
        sample_env_def sample_fence_def settle_def lastModified_def marker_def)
  have early: "run sample_env [] [] ?tree =
   Inr \<lparr>root = RElem ''React.Fragment'' None []
          (Some (RArray
             [RArray
                [RElem ''React.Fragment'' (Some 0) []
                   (Some (RArray
                      [marker None 0,
                       RElem ''div'' (Some 0) [(''className'', PStr ''mermaid'')] None])),
                 RText ''between'',
                 RElem ''React.Fragment'' (Some 2) []
                   (Some (RArray
                      [marker None 1,
                       RElem ''div'' (Some 2) [(''className'', PStr ''mermaid'')] None]))],
              RNull])),
        root_lastModified = Some 1, root_matchCount = 0\<rparr>"
    by (simp add: run_def Let_def resume.simps pick_def renderFootnotes_def initial_def
        sample_env_def sample_fence_def settle_def lastModified_def marker_def)
  from order_preservation [THEN conjunct2, rule_format, OF late]
  obtain blocks foot where b: "root ?res = RElem ''React.Fragment'' None [] (Some (RArray [RArray blocks, foot]))"
    "\<forall>i<length ?tree. \<exists>q. matches sample_env (?tree ! i) (Some i) q \<and> holes q = []
        \<and> finish q = Inr (blocks ! i)"
    by blast
  from b(1) have "blocks ! 2 = RElem ''React.Fragment'' (Some 2) []
                (Some (RArray
                   [marker None 0,
                    RElem ''div'' (Some 2) [(''className'', PStr ''mermaid'')] None]))"
    by auto
  with b(2) [rule_format, of 2]
  have "\<exists>q. matches sample_env (Node (KCode (Some ''mermaid'')) [Str ''second'']) (Some 2) q
          \<and> holes q = []
          \<and> finish q = Inr (RElem ''React.Fragment'' (Some 2) []
                (Some (RArray
                   [marker None 0,
                    RElem ''div'' (Some 2) [(''className'', PStr ''mermaid'')] None])))"
    by (simp del: matches.simps)
  with late early show ?thesis by blast
qed


section \<open>Footnotes\<close>







section \<open>The footnote section\<close>

text \<open>
  Claim C6.  A footnote definition yields \<^verbatim>\<open>null\<close> at its position and is appended to the
  collector.  Whenever the pass returns, the root is a fragment of the main blocks, one per
  input element, followed by the footnote output; that output is \<^verbatim>\<open>null\<close> when the collector is
  empty after the main pass, and otherwise one section with one item for each definition in
  the collector at that moment, in order, which begins with the definitions met in the
  synchronous part of the main pass.  At the failing input, a definition nested in a
  definition, the nested definition is appended to the collector while the items are being
  rendered, after \<^verbatim>\<open>this.footNotes.map\<close> has fixed the number of items: it yields \<^verbatim>\<open>null\<close> at its
  position and no item, so it is emitted nowhere.  The legacy renderer, which iterates over
  the collector as it grows, emits an item for it.
\<close>

theorem footnote_section:
  "render env (Node (KFnDef fid) c) key s = (Done RNull, s\<lparr>footNotes := footNotes s @ [(fid, c)]\<rparr>)
   \<and> (run env sched sched' tree = Inr res \<longrightarrow>
        (\<exists>blocks foot (session :: state) later.
           root res = RElem ''React.Fragment'' None [] (Some (RArray [RArray blocks, foot]))
           \<and> length blocks = length tree
           \<and> footNotes session = collectedAll tree @ later
           \<and> (if footNotes session = [] then foot = RNull
               else (\<exists>items. foot = footnotes_section items
                       \<and> length items = length (footNotes session)
                       \<and> (\<forall>i<length (footNotes session). \<exists>children.
                             items ! i = RElem ''li'' (Some i)
                               [(''id'', PStr (''user-content-fn-'' @ fst (footNotes session ! i)))]
                               (Some (RArray children)))))))
   \<and> run sample_env [] []
        [Node (KFnDef ''1'') [Node KP [Str ''outer''], Node (KFnDef ''2'') [Node KP [Str ''inner'']]]] =
       Inr \<lparr>root = RElem ''React.Fragment'' None []
              (Some (RArray
                 [RArray [RNull],
                  footnotes_section
                    [RElem ''li'' (Some 0) [(''id'', PStr ''user-content-fn-1'')]
                       (Some (RArray
                          [RElem ''p'' (Some 0) [] (Some (RArray [RText ''outer''])),
                           RNull, backref ''1'']))]])),
            root_lastModified = None, root_matchCount = 0\<rparr>
   \<and> footNotes (snd (renderFootnotes sample_env []
        (initial\<lparr>footNotes :=
           [(''1'', [Node KP [Str ''outer''], Node (KFnDef ''2'') [Node KP [Str ''inner'']]])]\<rparr>))) =
       [(''1'', [Node KP [Str ''outer''], Node (KFnDef ''2'') [Node KP [Str ''inner'']]]),
        (''2'', [Node KP [Str ''inner'']])]
   \<and> PreviewContent_render stub_dom
        [Node (KFnDef ''1'') [Node KP [Str ''outer''], Node (KFnDef ''2'') [Node KP [Str ''inner'']]]] =
       Inr [DElem ''section'' [(''className'', PStr ''footnotes'')]
              [DElem ''h2'' [(''id'', PStr ''footnote-label''), (''className'', PStr ''sr-only'')]
                 [DText ''Footnotes''],
               DElem ''ol'' []
                 [DElem ''li'' [(''id'', PStr ''user-content-fn-1'')]
                    [DElem ''p'' [] [DText ''outer'', backref_legacy ''1'']],
                  DElem ''li'' [(''id'', PStr ''user-content-fn-2'')]
                    [DElem ''p'' [] [DText ''inner'', backref_legacy ''2'']]]]]"
proof (intro conjI impI)
  assume "run env sched sched' tree = Inr res"
  from run_shape [OF this] obtain settled session blocks foot later where
    s: "matchesAll env tree 0 settled" "promise_all (map finish settled) = Inr blocks"
       "footNotes session = collectedAll tree @ later"
       "fst (renderFootnotes env sched' session) = Inr foot"
       "root res = RElem ''React.Fragment'' None [] (Some (RArray [RArray blocks, foot]))"
    by blast
  from s(1) promise_all_nth [OF s(2)] have len: "length blocks = length tree"
    by (simp add: matchesAll_nth del: matches.simps)
  have footfact: "if footNotes session = [] then foot = RNull
        else (\<exists>items. foot = footnotes_section items
                \<and> length items = length (footNotes session)
                \<and> (\<forall>i<length (footNotes session). \<exists>children.
                      items ! i = RElem ''li'' (Some i)
                        [(''id'', PStr (''user-content-fn-'' @ fst (footNotes session ! i)))]
                        (Some (RArray children))))"
  proof (cases "footNotes session = []")
    case True
    with s(4) show ?thesis by (simp add: renderFootnotes_none)
  next
    case False
    from renderFootnotes_shape [OF s(4) False] obtain items where
      "foot = footnotes_section items" "length items = length (footNotes session)"
      "\<forall>i<length (footNotes session). \<exists>children.
          items ! i = RElem ''li'' (Some i)
            [(''id'', PStr (''user-content-fn-'' @ fst (footNotes session ! i)))]
            (Some (RArray children))"
      by blast
    with False show ?thesis by auto
  qed
  show "\<exists>blocks foot (session :: state) later.
           root res = RElem ''React.Fragment'' None [] (Some (RArray [RArray blocks, foot]))
           \<and> length blocks = length tree
           \<and> footNotes session = collectedAll tree @ later
           \<and> (if footNotes session = [] then foot = RNull
               else (\<exists>items. foot = footnotes_section items
                       \<and> length items = length (footNotes session)
                       \<and> (\<forall>i<length (footNotes session). \<exists>children.
                             items ! i = RElem ''li'' (Some i)
                               [(''id'', PStr (''user-content-fn-'' @ fst (footNotes session ! i)))]
                               (Some (RArray children)))))"
    using s(5) len s(3) footfact by blast
next
  show "run sample_env [] []
        [Node (KFnDef ''1'') [Node KP [Str ''outer''], Node (KFnDef ''2'') [Node KP [Str ''inner'']]]] =
       Inr \<lparr>root = RElem ''React.Fragment'' None []
              (Some (RArray
                 [RArray [RNull],
                  footnotes_section
                    [RElem ''li'' (Some 0) [(''id'', PStr ''user-content-fn-1'')]
                       (Some (RArray
                          [RElem ''p'' (Some 0) [] (Some (RArray [RText ''outer''])),
                           RNull, backref ''1'']))]])),
            root_lastModified = None, root_matchCount = 0\<rparr>"
    by (simp add: run_def Let_def resume_Nil renderFootnotes_def initial_def
        push_backref_def lastElementOf_def)
next
  show "footNotes (snd (renderFootnotes sample_env []
        (initial\<lparr>footNotes :=
           [(''1'', [Node KP [Str ''outer''], Node (KFnDef ''2'') [Node KP [Str ''inner'']]])]\<rparr>))) =
       [(''1'', [Node KP [Str ''outer''], Node (KFnDef ''2'') [Node KP [Str ''inner'']]]),
        (''2'', [Node KP [Str ''inner'']])]"
    by (simp add: renderFootnotes_def Let_def resume_Nil initial_def push_backref_def
        lastElementOf_def)
next
  show "PreviewContent_render stub_dom
        [Node (KFnDef ''1'') [Node KP [Str ''outer''], Node (KFnDef ''2'') [Node KP [Str ''inner'']]]] =
       Inr [DElem ''section'' [(''className'', PStr ''footnotes'')]
              [DElem ''h2'' [(''id'', PStr ''footnote-label''), (''className'', PStr ''sr-only'')]
                 [DText ''Footnotes''],
               DElem ''ol'' []
                 [DElem ''li'' [(''id'', PStr ''user-content-fn-1'')]
                    [DElem ''p'' [] [DText ''outer'', backref_legacy ''1'']],
                  DElem ''li'' [(''id'', PStr ''user-content-fn-2'')]
                    [DElem ''p'' [] [DText ''inner'', backref_legacy ''2'']]]]]"
    by (simp add: PreviewContent_render_def end_legacy_def footnote_items.simps initial_legacy_def
        append_node_def append_backref_def Let_def)
qed simp

theorem footnote_section_witness:
  "run sample_env [] []
     [Node (KFnDef ''1'') [Str ''note''], Node KP [Str ''body''], Node (KFnDef ''2'') [Str ''other'']] =
     Inr \<lparr>root = RElem ''React.Fragment'' None []
            (Some (RArray
               [RArray [RNull, RElem ''p'' (Some 1) [] (Some (RArray [RText ''body''])), RNull],
                footnotes_section
                  [RElem ''li'' (Some 0) [(''id'', PStr ''user-content-fn-1'')]
                     (Some (RArray [RText ''note'', backref ''1''])),
                   RElem ''li'' (Some 1) [(''id'', PStr ''user-content-fn-2'')]
                     (Some (RArray [RText ''other'', backref ''2'']))]])),
          root_lastModified = None, root_matchCount = 0\<rparr>
   \<and> (\<exists>blocks foot (session :: state) later.
         RElem ''React.Fragment'' None []
            (Some (RArray
               [RArray [RNull, RElem ''p'' (Some 1) [] (Some (RArray [RText ''body''])), RNull],
                footnotes_section
                  [RElem ''li'' (Some 0) [(''id'', PStr ''user-content-fn-1'')]
                     (Some (RArray [RText ''note'', backref ''1''])),
                   RElem ''li'' (Some 1) [(''id'', PStr ''user-content-fn-2'')]
                     (Some (RArray [RText ''other'', backref ''2'']))]]))
           = RElem ''React.Fragment'' None [] (Some (RArray [RArray blocks, foot]))
         \<and> length blocks = 3
         \<and> footNotes session = [(''1'', [Str ''note'']), (''2'', [Str ''other''])] @ later)"
proof -
  let ?tree = "[Node (KFnDef ''1'') [Str ''note''], Node KP [Str ''body''],
                Node (KFnDef ''2'') [Str ''other'']]"
  let ?res = "\<lparr>root = RElem ''React.Fragment'' None []
            (Some (RArray
               [RArray [RNull, RElem ''p'' (Some 1) [] (Some (RArray [RText ''body''])), RNull],
                footnotes_section
                  [RElem ''li'' (Some 0) [(''id'', PStr ''user-content-fn-1'')]
                     (Some (RArray [RText ''note'', backref ''1''])),
                   RElem ''li'' (Some 1) [(''id'', PStr ''user-content-fn-2'')]
                     (Some (RArray [RText ''other'', backref ''2'']))]])),
          root_lastModified = None, root_matchCount = 0\<rparr>"
  have h: "run sample_env [] [] ?tree = Inr ?res"
    by (simp add: run_def Let_def resume_Nil renderFootnotes_def initial_def
        push_backref_def lastElementOf_def)
  have c: "collectedAll ?tree = [(''1'', [Str ''note'']), (''2'', [Str ''other''])]"
    by simp
  from footnote_section [THEN conjunct2, THEN conjunct1, rule_format, OF h]
  obtain blocks foot and session :: state and later where
    "root ?res = RElem ''React.Fragment'' None [] (Some (RArray [RArray blocks, foot]))"
    "length blocks = length ?tree"
    "footNotes session = collectedAll ?tree @ later"
    by blast
  with c have "\<exists>blocks foot (session :: state) later.
      root ?res = RElem ''React.Fragment'' None [] (Some (RArray [RArray blocks, foot]))
      \<and> length blocks = 3
      \<and> footNotes session = [(''1'', [Str ''note'']), (''2'', [Str ''other''])] @ later"
    by (intro exI [of _ blocks] exI [of _ foot] exI [of _ session] exI [of _ later]) simp
  with h show ?thesis by simp
qed

end
